theory Spec2Isabelle
  imports Main "HOL-Library.Char_ord" "HOL-Library.List_Lexorder" "HOL-Library.Multiset"
begin

section \<open>Go values used by \<^verbatim>\<open>azfile/parsing_urls.go\<close>\<close>

text \<open>
  A Go \<^verbatim>\<open>string\<close> is a sequence of bytes: \<^typ>\<open>string\<close>. Indexing and slicing a string
  out of range panic at run time; the panic is a value of the model, so that "the
  function returns" is a statement that can be proved.
\<close>

datatype panic = IndexOutOfRange | SliceBoundsOutOfRange

text \<open>\<^verbatim>\<open>s[i]\<close>\<close>

definition index_at :: "'a list \<Rightarrow> int \<Rightarrow> panic + 'a" where
  "index_at s i =
     (if 0 \<le> i \<and> i < int (length s) then Inr (s ! nat i) else Inl IndexOutOfRange)"

text \<open>\<^verbatim>\<open>s[i:]\<close>\<close>

definition slice_from :: "string \<Rightarrow> int \<Rightarrow> panic + string" where
  "slice_from s i =
     (if 0 \<le> i \<and> i \<le> int (length s) then Inr (drop (nat i) s) else Inl SliceBoundsOutOfRange)"

text \<open>\<^verbatim>\<open>s[:i]\<close>\<close>

definition slice_to :: "string \<Rightarrow> int \<Rightarrow> panic + string" where
  "slice_to s i =
     (if 0 \<le> i \<and> i \<le> int (length s) then Inr (take (nat i) s) else Inl SliceBoundsOutOfRange)"

text \<open>
  \<^verbatim>\<open>strings.Index(s, substr)\<close>: the index of the first instance of \<^verbatim>\<open>substr\<close> in
  \<^verbatim>\<open>s\<close>, or -1.
\<close>

fun strings_Index_from :: "nat \<Rightarrow> string \<Rightarrow> string \<Rightarrow> int" where
  "strings_Index_from i [] substr = (if substr = [] then int i else - 1)"
| "strings_Index_from i (c # s) substr =
     (if take (length substr) (c # s) = substr then int i
      else strings_Index_from (Suc i) s substr)"

definition strings_Index :: "string \<Rightarrow> string \<Rightarrow> int" where
  "strings_Index s substr = strings_Index_from 0 s substr"

text \<open>
  \<^verbatim>\<open>strings.ToLower\<close>, on bytes: the letters A to Z are mapped to a to z. Bytes from
  0x80 on (the encodings of non-ASCII runes) are left as they are; no rune outside
  ASCII has a lower case that is a letter of \<^verbatim>\<open>sharesnapshot\<close>.
\<close>

definition lower_byte :: "char \<Rightarrow> char" where
  "lower_byte c =
     (if CHR ''A'' \<le> c \<and> c \<le> CHR ''Z'' then char_of (of_char c + (32 :: int)) else c)"

definition strings_ToLower :: "string \<Rightarrow> string" where
  "strings_ToLower s = map lower_byte s"

text \<open>
  \<^verbatim>\<open>strings.Cut(s, sep)\<close> for a separator of one byte: the text before the first
  separator and the text after it; all of \<^verbatim>\<open>s\<close> and the empty string when there
  is none.
\<close>

definition strings_Cut :: "string \<Rightarrow> char \<Rightarrow> string \<times> string" where
  "strings_Cut s sep = (takeWhile (\<lambda>c. c \<noteq> sep) s, drop 1 (dropWhile (\<lambda>c. c \<noteq> sep) s))"

subsection \<open>\<^verbatim>\<open>url.URL\<close> and \<^verbatim>\<open>url.Values\<close>\<close>

text \<open>
  The fields of \<^verbatim>\<open>url.URL\<close> that the file reads and writes. \<^verbatim>\<open>URL()\<close> leaves every
  other field (Opaque, User, RawPath, Fragment, ...) at its zero value.
\<close>

record url_URL =
  url_Scheme :: string
  url_Host :: string
  url_Path :: string
  url_RawQuery :: string

text \<open>
  \<^verbatim>\<open>url.Values\<close> is \<^verbatim>\<open>map[string][]string\<close>. The model is an association list with
  one entry for each key. The order of the list carries no meaning: the order in
  which \<^verbatim>\<open>range\<close> visits a Go map is left to the runtime (see \<open>range_order\<close>).
\<close>

type_synonym Values = "(string \<times> string list) list"

text \<open>\<^verbatim>\<open>m[key]\<close>: the zero value (nil) for a key that is absent.\<close>

definition values_lookup :: "Values \<Rightarrow> string \<Rightarrow> string list" where
  "values_lookup m key = (case map_of m key of None \<Rightarrow> [] | Some vs \<Rightarrow> vs)"

text \<open>\<^verbatim>\<open>m[key] = append(m[key], value)\<close>\<close>

fun values_append :: "Values \<Rightarrow> string \<Rightarrow> string \<Rightarrow> Values" where
  "values_append [] key v = [(key, [v])]"
| "values_append ((k, vs) # m) key v =
     (if k = key then (k, vs @ [v]) # m else (k, vs) # values_append m key v)"

text \<open>\<^verbatim>\<open>delete(m, key)\<close>\<close>

definition map_delete :: "Values \<Rightarrow> string \<Rightarrow> Values" where
  "map_delete m key = filter (\<lambda>kv. fst kv \<noteq> key) m"

text \<open>
  \<^verbatim>\<open>for k, v := range m\<close>: Go does not specify the order. The runtime's choice is the
  argument \<open>seed\<close>: each number picks the next entry among those not yet visited.
  Every order of the entries is the result of some seed, and every seed gives an
  order of the entries.
\<close>

fun range_order :: "nat list \<Rightarrow> 'a list \<Rightarrow> 'a list" where
  "range_order [] m = m"
| "range_order (s # seed) m =
     (if m = [] then []
      else (m ! (s mod length m)) #
           range_order seed (take (s mod length m) m @ drop (Suc (s mod length m)) m))"

section \<open>What the file calls\<close>

subsection \<open>Parameters\<close>

text \<open>
  The functions the file calls that are not modelled in this section are parameters of
  the model:
  \<^item> \<^verbatim>\<open>net.ParseIP(h) != nil\<close>, \<^verbatim>\<open>url.QueryUnescape\<close> (\<open>None\<close> for an error) and
    \<^verbatim>\<open>url.QueryEscape\<close> of Go's standard library;
  \<^item> \<^verbatim>\<open>newSASQueryParameters\<close> and \<^verbatim>\<open>SASQueryParameters.Encode\<close> of package azfile
    (\<^verbatim>\<open>sas_query_params.go\<close>). \<^verbatim>\<open>newSASQueryParameters\<close> is given the map and the
    flag \<^verbatim>\<open>deleteSASParametersFromValues\<close>; it deletes from the map it is given, so
    the model returns the map as it leaves it.
  The theorems hold for every choice of them, but for the hypotheses they state.
\<close>

record 'sas collaborators =
  net_ParseIP :: "string \<Rightarrow> bool"
  url_QueryUnescape :: "string \<Rightarrow> string option"
  url_QueryEscape :: "string \<Rightarrow> string"
  newSASQueryParameters :: "Values \<Rightarrow> bool \<Rightarrow> 'sas \<times> Values"
  SAS_Encode :: "'sas \<Rightarrow> string"

subsection \<open>\<^verbatim>\<open>net.SplitHostPort\<close>\<close>

text \<open>The errors of \<^verbatim>\<open>net.SplitHostPort\<close>, after Go's standard library.\<close>

datatype AddrError =
  MissingPort | TooManyColons | MissingCloseBracket | UnexpectedOpenBracket
  | UnexpectedCloseBracket

text \<open>\<^verbatim>\<open>bytealg.IndexByteString\<close> and \<^verbatim>\<open>bytealg.LastIndexByteString\<close>\<close>

definition IndexByteString :: "string \<Rightarrow> char \<Rightarrow> int" where
  "IndexByteString s c = (if c \<in> set s then int (length (takeWhile (\<lambda>x. x \<noteq> c) s)) else - 1)"

definition LastIndexByteString :: "string \<Rightarrow> char \<Rightarrow> int" where
  "LastIndexByteString s c =
     (if c \<in> set s then int (length s) - 1 - int (length (takeWhile (\<lambda>x. x \<noteq> c) (rev s)))
      else - 1)"

text \<open>
  The end of \<^verbatim>\<open>net.SplitHostPort\<close>: with \<open>host\<close> found, \<open>j\<close> and \<open>k\<close> the positions
  before which no bracket can stand, and \<open>i\<close> the index of the last colon.
\<close>

definition SplitHostPort_rest ::
  "string \<Rightarrow> string \<Rightarrow> nat \<Rightarrow> nat \<Rightarrow> int \<Rightarrow> AddrError + (string \<times> string)" where
  "SplitHostPort_rest hostport host j k i =
     (if IndexByteString (drop j hostport) CHR ''['' \<ge> 0 then Inl UnexpectedOpenBracket
      else if IndexByteString (drop k hostport) CHR '']'' \<ge> 0 then Inl UnexpectedCloseBracket
      else Inr (host, drop (nat (i + 1)) hostport))"

definition net_SplitHostPort :: "string \<Rightarrow> AddrError + (string \<times> string)" where
  "net_SplitHostPort hostport =
     (let i = LastIndexByteString hostport CHR '':'' in
      if i < 0 then Inl MissingPort
      else if take 1 hostport = ''[''
      then
        (let e = IndexByteString hostport CHR '']'' in
         if e < 0 then Inl MissingCloseBracket
         else if e + 1 = int (length hostport) then Inl MissingPort
         else if e + 1 = i
         then SplitHostPort_rest hostport (take (nat e - 1) (drop 1 hostport)) 1 (nat e + 1) i
         else if take 1 (drop (nat (e + 1)) hostport) = '':'' then Inl TooManyColons
         else Inl MissingPort)
      else
        (let host = take (nat i) hostport in
         if IndexByteString host CHR '':'' \<ge> 0 then Inl TooManyColons
         else SplitHostPort_rest hostport host 0 0 i))"

subsection \<open>\<^verbatim>\<open>url.URL.Query\<close> and \<^verbatim>\<open>url.Values.Encode\<close>\<close>

text \<open>
  One round of the loop of \<^verbatim>\<open>url.parseQuery\<close> (as of Go 1.17, where \<^verbatim>\<open>&\<close> alone
  separates), for the text \<open>key\<close> before the next \<^verbatim>\<open>&\<close>: a pair with a semicolon, an
  empty pair and a pair whose key or value does not unescape are skipped; any other is
  appended to the values of its key.
\<close>

definition parseQuery_pair :: "(string \<Rightarrow> string option) \<Rightarrow> Values \<Rightarrow> string \<Rightarrow> Values" where
  "parseQuery_pair unescape m key =
     (if CHR '';'' \<in> set key then m
      else if key = [] then m
      else
        (case unescape (fst (strings_Cut key CHR ''='')) of
           None \<Rightarrow> m
         | Some key1 \<Rightarrow>
             (case unescape (snd (strings_Cut key CHR ''='')) of
                None \<Rightarrow> m
              | Some value1 \<Rightarrow> values_append m key1 value1)))"

function parseQuery :: "(string \<Rightarrow> string option) \<Rightarrow> Values \<Rightarrow> string \<Rightarrow> Values" where
  "parseQuery unescape m query =
     (if query = [] then m
      else parseQuery unescape (parseQuery_pair unescape m (fst (strings_Cut query CHR ''&'')))
             (snd (strings_Cut query CHR ''&'')))"
  by pat_completeness auto
termination
proof (relation "measure (\<lambda>(unescape, m, query). length query)")
  show "wf (measure (\<lambda>(unescape :: string \<Rightarrow> string option, m :: Values, query :: string).
      length query))"
    by simp
next
  fix unescape :: "string \<Rightarrow> string option" and m :: Values and query :: string
  assume "query \<noteq> []"
  then have pos: "0 < length query" by simp
  have le: "length (dropWhile (\<lambda>c. c \<noteq> CHR ''&'') query) \<le> length query"
    by (rule length_dropWhile_le)
  have "length (snd (strings_Cut query CHR ''&'')) < length query"
    unfolding strings_Cut_def snd_conv length_drop using pos le by linarith
  then show "((unescape, parseQuery_pair unescape m (fst (strings_Cut query CHR ''&'')),
               snd (strings_Cut query CHR ''&'')), unescape, m, query)
             \<in> measure (\<lambda>(unescape, m, query). length query)"
    by simp
qed

declare parseQuery.simps [simp del]

text \<open>\<^verbatim>\<open>u.Query()\<close>: \<^verbatim>\<open>ParseQuery(u.RawQuery)\<close> with the error dropped.\<close>

definition url_Query :: "'sas collaborators \<Rightarrow> url_URL \<Rightarrow> Values" where
  "url_Query env u = parseQuery (url_QueryUnescape env) [] (url_RawQuery u)"

text \<open>
  \<^verbatim>\<open>Values.Encode\<close>: the keys sorted (as byte strings), and for each key its values
  in order, as \<^verbatim>\<open>key=value\<close> joined by \<^verbatim>\<open>&\<close>, key and value escaped.
\<close>

fun Encode_values :: "(string \<Rightarrow> string) \<Rightarrow> string \<Rightarrow> string list \<Rightarrow> string \<Rightarrow> string" where
  "Encode_values escape keyEscaped [] buf = buf"
| "Encode_values escape keyEscaped (v # vs) buf =
     Encode_values escape keyEscaped vs
       ((if length buf > 0 then buf @ ''&'' else buf) @ keyEscaped @ ''='' @ escape v)"

fun Encode_keys :: "(string \<Rightarrow> string) \<Rightarrow> Values \<Rightarrow> string list \<Rightarrow> string \<Rightarrow> string" where
  "Encode_keys escape v [] buf = buf"
| "Encode_keys escape v (k # keys) buf =
     Encode_keys escape v keys (Encode_values escape (escape k) (values_lookup v k) buf)"

definition Values_Encode :: "(string \<Rightarrow> string) \<Rightarrow> Values \<Rightarrow> string" where
  "Values_Encode escape v =
     (if length v = 0 then [] else Encode_keys escape v (sort (map fst v)) [])"

section \<open>\<^verbatim>\<open>azfile/parsing_urls.go\<close>\<close>

definition shareSnapshot :: string where
  "shareSnapshot = ''sharesnapshot''"

text \<open>
  \<^verbatim>\<open>FileURLParts\<close>. The field \<^verbatim>\<open>isIPEndpointStyle\<close> has the name of the function, so
  the model calls it \<open>isIPEndpointStyle_field\<close>.
\<close>

record 'sas FileURLParts =
  Scheme :: string
  Host :: string
  ShareName :: string
  DirectoryOrFilePath :: string
  ShareSnapshot :: string
  SAS :: 'sas
  UnparsedParams :: string
  accountName :: string
  isIPEndpointStyle_field :: bool

text \<open>\<^verbatim>\<open>isIPEndpointStyle\<close>, lines 31 to 38.\<close>

definition isIPEndpointStyle :: "'sas collaborators \<Rightarrow> url_URL \<Rightarrow> bool" where
  "isIPEndpointStyle env u =
     (let h = url_Host u in
      if strings_Index h '':'' \<noteq> - 1
      then (case net_SplitHostPort h of
              Inl err \<Rightarrow> False
            | Inr (h', port) \<Rightarrow> net_ParseIP env h')
      else net_ParseIP env h)"

text \<open>
  Lines 66 to 72, and the same text again at lines 76 to 82: the share name up to the
  next slash and the path of the directory or file after it.
\<close>

definition split_share :: "string \<Rightarrow> panic + (string \<times> string)" where
  "split_share path =
     (let shareEndIndex = strings_Index path ''/'' in
      if shareEndIndex = - 1 then Inr (path, [])
      else
        (case slice_to path shareEndIndex of
           Inl e \<Rightarrow> Inl e
         | Inr share \<Rightarrow>
             (case slice_from path (shareEndIndex + 1) of
                Inl e \<Rightarrow> Inl e
              | Inr dir \<Rightarrow> Inr (share, dir))))"

text \<open>
  Lines 50 to 84: the fields \<^verbatim>\<open>accountName\<close>, \<^verbatim>\<open>ShareName\<close> and
  \<^verbatim>\<open>DirectoryOrFilePath\<close> that the path gives, in this order.
\<close>

definition parse_path :: "bool \<Rightarrow> string \<Rightarrow> panic + (string \<times> string \<times> string)" where
  "parse_path isIP p =
     (if p \<noteq> [] then
        (case index_at p 0 of
           Inl e \<Rightarrow> Inl e
         | Inr c0 \<Rightarrow>
             (case (if c0 = CHR ''/'' then slice_from p 1 else Inr p) of
                Inl e \<Rightarrow> Inl e
              | Inr path \<Rightarrow>
                  if isIP then
                    (let accountEndIndex = strings_Index path ''/'' in
                     if accountEndIndex = - 1 then Inr (path, [], [])
                     else
                       (case slice_to path accountEndIndex of
                          Inl e \<Rightarrow> Inl e
                        | Inr account \<Rightarrow>
                            (case slice_from path (accountEndIndex + 1) of
                               Inl e \<Rightarrow> Inl e
                             | Inr path' \<Rightarrow>
                                 (case split_share path' of
                                    Inl e \<Rightarrow> Inl e
                                  | Inr (share, dir) \<Rightarrow> Inr (account, share, dir)))))
                  else
                    (case split_share path of
                       Inl e \<Rightarrow> Inl e
                     | Inr (share, dir) \<Rightarrow> Inr ([], share, dir))))
      else Inr ([], [], []))"

text \<open>\<^verbatim>\<open>caseInsensitiveValues.Get\<close>, lines 100 to 108; \<open>seed\<close> is the order of the \<^verbatim>\<open>range\<close>.\<close>

fun Get_loop :: "Values \<Rightarrow> string \<Rightarrow> string list \<times> bool" where
  "Get_loop [] key = ([], False)"
| "Get_loop ((k, v) # rest) key =
     (if strings_ToLower k = key then (v, True) else Get_loop rest key)"

definition caseInsensitiveValues_Get :: "nat list \<Rightarrow> Values \<Rightarrow> string \<Rightarrow> string list \<times> bool" where
  "caseInsensitiveValues_Get seed values key =
     Get_loop (range_order seed values) (strings_ToLower key)"

text \<open>
  Lines 86 to 93: the snapshot and the map as line 94 finds it. \<^verbatim>\<open>snapshotStr[0]\<close>
  panics on an empty slice.
\<close>

definition parse_snapshot :: "nat list \<Rightarrow> Values \<Rightarrow> panic + (string \<times> Values)" where
  "parse_snapshot seed paramsMap =
     (case caseInsensitiveValues_Get seed paramsMap shareSnapshot of
        (snapshotStr, True) \<Rightarrow>
          (case index_at snapshotStr 0 of
             Inl e \<Rightarrow> Inl e
           | Inr s \<Rightarrow> Inr (s, map_delete paramsMap shareSnapshot))
      | (snapshotStr, False) \<Rightarrow> Inr ([], paramsMap))"

text \<open>\<^verbatim>\<open>NewFileURLParts\<close>, lines 42 to 97.\<close>

definition NewFileURLParts ::
  "'sas collaborators \<Rightarrow> nat list \<Rightarrow> url_URL \<Rightarrow> panic + 'sas FileURLParts" where
  "NewFileURLParts env seed u =
     (let isIP = isIPEndpointStyle env u in
      case parse_path isIP (url_Path u) of
        Inl e \<Rightarrow> Inl e
      | Inr (account, share, dir) \<Rightarrow>
          (case parse_snapshot seed (url_Query env u) of
             Inl e \<Rightarrow> Inl e
           | Inr (snapshot, paramsMap) \<Rightarrow>
               (let (sas, paramsMap') = newSASQueryParameters env paramsMap True in
                Inr \<lparr>Scheme = url_Scheme u, Host = url_Host u, ShareName = share,
                     DirectoryOrFilePath = dir, ShareSnapshot = snapshot, SAS = sas,
                     UnparsedParams = Values_Encode (url_QueryEscape env) paramsMap',
                     accountName = account, isIPEndpointStyle_field = isIP\<rparr>)))"

text \<open>\<^verbatim>\<open>FileURLParts.URL\<close>, lines 112 to 149.\<close>

definition URL :: "'sas collaborators \<Rightarrow> 'sas FileURLParts \<Rightarrow> url_URL" where
  "URL env up =
     (let path = [];
          path = (if isIPEndpointStyle_field up \<and> accountName up \<noteq> []
                  then path @ ''/'' @ accountName up else path);
          path = (if ShareName up \<noteq> []
                  then (let path = path @ ''/'' @ ShareName up in
                        if DirectoryOrFilePath up \<noteq> []
                        then path @ ''/'' @ DirectoryOrFilePath up else path)
                  else path);
          rawQuery = UnparsedParams up;
          rawQuery = (if ShareSnapshot up \<noteq> []
                      then (if length rawQuery > 0 then rawQuery @ ''&'' else rawQuery)
                           @ shareSnapshot @ ''='' @ ShareSnapshot up
                      else rawQuery);
          sas = SAS_Encode env (SAS up);
          rawQuery = (if sas \<noteq> []
                      then (if length rawQuery > 0 then rawQuery @ ''&'' else rawQuery) @ sas
                      else rawQuery)
      in \<lparr>url_Scheme = Scheme up, url_Host = Host up, url_Path = path,
          url_RawQuery = rawQuery\<rparr>)"

section \<open>The parameters as Go has them\<close>

text \<open>
  Models of the parameters, for the examples: \<^verbatim>\<open>url.QueryEscape\<close>,
  \<^verbatim>\<open>url.QueryUnescape\<close> and \<^verbatim>\<open>net.ParseIP\<close> after Go's standard library, and the
  authorization sub-parser after the spec.
\<close>

subsection \<open>\<^verbatim>\<open>url.QueryEscape\<close> and \<^verbatim>\<open>url.QueryUnescape\<close>\<close>

text \<open>
  \<^verbatim>\<open>shouldEscape(c, encodeQueryComponent)\<close>: letters, digits and \<^verbatim>\<open>-_.~\<close> are the
  bytes that are not escaped.
\<close>

definition shouldEscape :: "char \<Rightarrow> bool" where
  "shouldEscape c =
     (\<not> ((CHR ''a'' \<le> c \<and> c \<le> CHR ''z'') \<or> (CHR ''A'' \<le> c \<and> c \<le> CHR ''Z'')
         \<or> (CHR ''0'' \<le> c \<and> c \<le> CHR ''9'') \<or> c \<in> set ''-_.~''))"

definition upperhex :: string where
  "upperhex = ''0123456789ABCDEF''"

fun QueryEscape :: "string \<Rightarrow> string" where
  "QueryEscape [] = []"
| "QueryEscape (c # s) =
     (if shouldEscape c then
        (if c = CHR '' '' then CHR ''+'' # QueryEscape s
         else CHR ''%'' # upperhex ! nat (of_char c div 16) # upperhex ! nat (of_char c mod 16)
              # QueryEscape s)
      else c # QueryEscape s)"

definition ishex :: "char \<Rightarrow> bool" where
  "ishex c =
     ((CHR ''0'' \<le> c \<and> c \<le> CHR ''9'') \<or> (CHR ''a'' \<le> c \<and> c \<le> CHR ''f'')
      \<or> (CHR ''A'' \<le> c \<and> c \<le> CHR ''F''))"

definition unhex :: "char \<Rightarrow> int" where
  "unhex c =
     (if CHR ''0'' \<le> c \<and> c \<le> CHR ''9'' then of_char c - of_char CHR ''0''
      else if CHR ''a'' \<le> c \<and> c \<le> CHR ''f'' then of_char c - of_char CHR ''a'' + 10
      else if CHR ''A'' \<le> c \<and> c \<le> CHR ''F'' then of_char c - of_char CHR ''A'' + 10
      else 0)"

text \<open>\<open>None\<close> is the \<^verbatim>\<open>EscapeError\<close> for a \<^verbatim>\<open>%\<close> that two hex digits do not follow.\<close>

fun QueryUnescape :: "string \<Rightarrow> string option" where
  "QueryUnescape [] = Some []"
| "QueryUnescape (c # s) =
     (if c = CHR ''%'' then
        (case s of
           h1 # h2 # s' \<Rightarrow>
             if ishex h1 \<and> ishex h2
             then map_option ((#) (char_of (unhex h1 * 16 + unhex h2))) (QueryUnescape s')
             else None
         | _ \<Rightarrow> None)
      else if c = CHR ''+'' then map_option ((#) CHR '' '') (QueryUnescape s)
      else map_option ((#) c) (QueryUnescape s))"

subsection \<open>\<^verbatim>\<open>net.ParseIP\<close>\<close>

text \<open>
  The parser of package \<^verbatim>\<open>net\<close> as of Go 1.17, before \<^verbatim>\<open>net/netip\<close> took its place: a
  group of an IPv6 address is any run of hex digits with a value up to 0xFFFF.

  \<^verbatim>\<open>dtoi\<close> and \<^verbatim>\<open>xtoi\<close>: the number at the start of the string, how many bytes it
  takes, and whether there is one (below \<^verbatim>\<open>big = 0xFFFFFF\<close>).
\<close>

fun dtoi_loop :: "int \<Rightarrow> nat \<Rightarrow> string \<Rightarrow> int \<times> nat \<times> bool" where
  "dtoi_loop n i [] = (if i = 0 then (0, 0, False) else (n, i, True))"
| "dtoi_loop n i (c # s) =
     (if CHR ''0'' \<le> c \<and> c \<le> CHR ''9'' then
        (let n' = n * 10 + (of_char c - of_char CHR ''0'') in
         if n' \<ge> 0xFFFFFF then (0xFFFFFF, i, False) else dtoi_loop n' (Suc i) s)
      else if i = 0 then (0, 0, False) else (n, i, True))"

definition dtoi :: "string \<Rightarrow> int \<times> nat \<times> bool" where
  "dtoi s = dtoi_loop 0 0 s"

fun xtoi_loop :: "int \<Rightarrow> nat \<Rightarrow> string \<Rightarrow> int \<times> nat \<times> bool" where
  "xtoi_loop n i [] = (if i = 0 then (0, i, False) else (n, i, True))"
| "xtoi_loop n i (c # s) =
     (if ishex c then
        (let n' = n * 16 + unhex c in
         if n' \<ge> 0xFFFFFF then (0, i, False) else xtoi_loop n' (Suc i) s)
      else if i = 0 then (0, i, False) else (n, i, True))"

definition xtoi :: "string \<Rightarrow> int \<times> nat \<times> bool" where
  "xtoi s = xtoi_loop 0 0 s"

text \<open>
  \<^verbatim>\<open>parseIPv4\<close>, as whether it returns an address: four numbers up to 255 with dots
  between them, none with a zero before another digit. \<open>i\<close> counts the fields read.
\<close>

fun parseIPv4_loop :: "nat \<Rightarrow> nat \<Rightarrow> string \<Rightarrow> bool" where
  "parseIPv4_loop 0 i s = (s = [])"
| "parseIPv4_loop (Suc left) i s =
     (if s = [] then False
      else if i > 0 \<and> take 1 s \<noteq> ''.'' then False
      else
        (let s = (if i > 0 then drop 1 s else s) in
         case dtoi s of
           (n, c, ok) \<Rightarrow>
             if \<not> ok \<or> n > 0xFF then False
             else if c > 1 \<and> take 1 s = ''0'' then False
             else parseIPv4_loop left (Suc i) (drop c s)))"

definition parseIPv4 :: "string \<Rightarrow> bool" where
  "parseIPv4 s = parseIPv4_loop 4 0 s"

text \<open>
  The loop of \<^verbatim>\<open>parseIPv6\<close>: \<open>i\<close> is the number of bytes of the address filled,
  \<open>ellipsis\<close> the position of \<^verbatim>\<open>::\<close> (-1 for none). \<open>None\<close> is \<^verbatim>\<open>return nil\<close>.
\<close>

function parseIPv6_loop :: "nat \<Rightarrow> int \<Rightarrow> string \<Rightarrow> (nat \<times> int \<times> string) option" where
  "parseIPv6_loop i ellipsis s =
     (if i < 16 then
        (if \<not> snd (snd (xtoi s)) \<or> fst (xtoi s) > 0xFFFF then None
         else if fst (snd (xtoi s)) < length s \<and> s ! fst (snd (xtoi s)) = CHR ''.'' then
           (if ellipsis < 0 \<and> i \<noteq> 12 then None
            else if i + 4 > 16 then None
            else if \<not> parseIPv4 s then None
            else Some (i + 4, ellipsis, []))
         else if drop (fst (snd (xtoi s))) s = [] then Some (i + 2, ellipsis, [])
         else if take 1 (drop (fst (snd (xtoi s))) s) \<noteq> '':''
                 \<or> length (drop (fst (snd (xtoi s))) s) = 1 then None
         else if take 1 (drop (Suc (fst (snd (xtoi s)))) s) = '':'' then
           (if ellipsis \<ge> 0 then None
            else if drop (Suc (Suc (fst (snd (xtoi s))))) s = []
            then Some (i + 2, int (i + 2), [])
            else parseIPv6_loop (i + 2) (int (i + 2)) (drop (Suc (Suc (fst (snd (xtoi s))))) s))
         else parseIPv6_loop (i + 2) ellipsis (drop (Suc (fst (snd (xtoi s)))) s))
      else Some (i, ellipsis, s))"
  by pat_completeness auto
termination
  by (relation "measure (\<lambda>(i, ellipsis, s). 16 - i)") simp_all

declare parseIPv6_loop.simps [simp del]

definition parseIPv6 :: "string \<Rightarrow> bool" where
  "parseIPv6 s =
     (let lead = (length s \<ge> 2 \<and> take 2 s = ''::'');
          ellipsis = (if lead then 0 else - 1);
          s = (if lead then drop 2 s else s)
      in if lead \<and> s = [] then True
         else
           (case parseIPv6_loop 0 ellipsis s of
              None \<Rightarrow> False
            | Some (i, ellipsis, s) \<Rightarrow>
                if s \<noteq> [] then False
                else if i < 16 then \<not> ellipsis < 0
                else \<not> ellipsis \<ge> 0))"

text \<open>\<^verbatim>\<open>net.ParseIP(s) != nil\<close>: the first dot or colon decides between the two forms.\<close>

fun ParseIP_scan :: "string \<Rightarrow> string \<Rightarrow> bool" where
  "ParseIP_scan s [] = False"
| "ParseIP_scan s (c # rest) =
     (if c = CHR ''.'' then parseIPv4 s
      else if c = CHR '':'' then parseIPv6 s
      else ParseIP_scan s rest)"

definition ParseIP :: "string \<Rightarrow> bool" where
  "ParseIP s = ParseIP_scan s s"

subsection \<open>The authorization sub-parser\<close>

text \<open>
  Modelled from the spec: \<^verbatim>\<open>newSASQueryParameters\<close> and \<^verbatim>\<open>SASQueryParameters.Encode\<close>
  (\<^verbatim>\<open>sas_query_params.go\<close> is not among the sources). The spec: the sub-parser
  "consumes the remaining query mapping plus a strictness flag, returns a structured
  authorization-parameter set and (implicitly) removes its own keys from the mapping it
  was given". The parameter set is modelled as the entries of its keys; the spec does
  not name the keys, so they are an argument.
\<close>

definition spec_newSASQueryParameters ::
  "(string \<Rightarrow> bool) \<Rightarrow> Values \<Rightarrow> bool \<Rightarrow> Values \<times> Values" where
  "spec_newSASQueryParameters isSASKey values deleteSASParametersFromValues =
     (filter (\<lambda>kv. isSASKey (fst kv)) values,
      if deleteSASParametersFromValues then filter (\<lambda>kv. \<not> isSASKey (fst kv)) values
      else values)"

text \<open>The keys of a shared access signature that the examples use.\<close>

definition example_isSASKey :: "string \<Rightarrow> bool" where
  "example_isSASKey k =
     (strings_ToLower k \<in> set [''sv'', ''ss'', ''srt'', ''spr'', ''st'', ''se'', ''sip'',
        ''si'', ''sr'', ''sp'', ''sig''])"

definition go_env :: "Values collaborators" where
  "go_env =
     \<lparr>net_ParseIP = ParseIP, url_QueryUnescape = QueryUnescape, url_QueryEscape = QueryEscape,
      newSASQueryParameters = spec_newSASQueryParameters example_isSASKey,
      SAS_Encode = Values_Encode QueryEscape\<rparr>"

section \<open>Notions of the properties\<close>

subsection \<open>Closed forms of what the code computes\<close>

text \<open>
  The maps \<^verbatim>\<open>url.ParseQuery\<close> builds: one entry for each key, and no key without a value.
\<close>

definition values_ok :: "Values \<Rightarrow> bool" where
  "values_ok m = (distinct (map fst m) \<and> (\<forall>kv \<in> set m. snd kv \<noteq> []))"

text \<open>
  The path with one leading slash removed, if it has one (lines 53 to 55).
\<close>

definition strip_leading_slash :: "string \<Rightarrow> string" where
  "strip_leading_slash p = (if take 1 p = ''/'' then drop 1 p else p)"

text \<open>
  What lines 50 to 84 compute: \<^verbatim>\<open>accountName\<close>, \<^verbatim>\<open>ShareName\<close> and
  \<^verbatim>\<open>DirectoryOrFilePath\<close>.
\<close>

definition path_fields :: "bool \<Rightarrow> string \<Rightarrow> string \<times> string \<times> string" where
  "path_fields isIP p =
     (if isIP
      then (fst (strings_Cut (strip_leading_slash p) CHR ''/''),
            strings_Cut (snd (strings_Cut (strip_leading_slash p) CHR ''/'')) CHR ''/'')
      else ([], strings_Cut (strip_leading_slash p) CHR ''/''))"

text \<open>
  \<^verbatim>\<open>if buf.Len() > 0 { buf.WriteByte('&') }\<close> and the next piece, as \<^verbatim>\<open>Values.Encode\<close> and
  \<^verbatim>\<open>URL()\<close> have it.
\<close>

definition amp_append :: "string \<Rightarrow> string \<Rightarrow> string" where
  "amp_append buf piece = (if length buf > 0 then buf @ ''&'' else buf) @ piece"

text \<open>
  The pairs of key and value that \<^verbatim>\<open>Values.Encode\<close> writes, in its order, and the piece
  \<^verbatim>\<open>key=value\<close> of a pair.
\<close>

definition Encode_pairs :: "Values \<Rightarrow> string list \<Rightarrow> (string \<times> string) list" where
  "Encode_pairs v keys = concat (map (\<lambda>k. map (Pair k) (values_lookup v k)) keys)"

definition raw_piece :: "string \<times> string \<Rightarrow> string" where
  "raw_piece kv = fst kv @ ''='' @ snd kv"

text \<open>
  \<^verbatim>\<open>NewFileURLParts\<close> and then \<^verbatim>\<open>URL()\<close>.
\<close>

definition parse_then_build :: "'sas collaborators \<Rightarrow> nat list \<Rightarrow> url_URL \<Rightarrow> panic + url_URL" where
  "parse_then_build env seed u =
     (case NewFileURLParts env seed u of Inl e \<Rightarrow> Inl e | Inr up \<Rightarrow> Inr (URL env up))"

subsection \<open>The notions of the spec\<close>

text \<open>
  The path as the spec builds it: each of the three parts if it is not empty.
\<close>

definition spec_URL_path :: "'sas FileURLParts \<Rightarrow> string" where
  "spec_URL_path up =
     (if isIPEndpointStyle_field up \<and> accountName up \<noteq> [] then ''/'' @ accountName up else [])
     @ (if ShareName up \<noteq> [] then ''/'' @ ShareName up else [])
     @ (if DirectoryOrFilePath up \<noteq> [] then ''/'' @ DirectoryOrFilePath up else [])"

text \<open>
  The raw query as the spec builds it: the unparsed parameters, the snapshot and the
  authorization parameters, those that are not empty, joined by \<^verbatim>\<open>&\<close>.
\<close>

fun spec_join :: "string list \<Rightarrow> string" where
  "spec_join [] = []"
| "spec_join [x] = x"
| "spec_join (x # y # segments) = x @ ''&'' @ spec_join (y # segments)"

definition spec_URL_rawQuery :: "'sas collaborators \<Rightarrow> 'sas FileURLParts \<Rightarrow> string" where
  "spec_URL_rawQuery env up =
     spec_join (filter (\<lambda>segment. segment \<noteq> [])
       [UnparsedParams up,
        if ShareSnapshot up \<noteq> [] then ''sharesnapshot='' @ ShareSnapshot up else [],
        SAS_Encode env (SAS up)])"

text \<open>
  The associations of key and value of a query, each as often as it occurs.
\<close>

definition associations :: "Values \<Rightarrow> (string \<times> string) multiset" where
  "associations m = mset (concat (map (\<lambda>kv. map (Pair (fst kv)) (snd kv)) m))"

text \<open>
  Two URLs are equivalent for the spec: the same scheme, host and path, and the same
  associations of the query, the case of the letters of a key left out of account.
\<close>

definition observably_equivalent :: "'sas collaborators \<Rightarrow> url_URL \<Rightarrow> url_URL \<Rightarrow> bool" where
  "observably_equivalent env u v =
     (url_Scheme u = url_Scheme v \<and> url_Host u = url_Host v \<and> url_Path u = url_Path v \<and>
      image_mset (\<lambda>kv. (strings_ToLower (fst kv), snd kv)) (associations (url_Query env u)) =
      image_mset (\<lambda>kv. (strings_ToLower (fst kv), snd kv)) (associations (url_Query env v)))"

subsection \<open>The URLs that the round trip keeps\<close>

text \<open>
  The paths \<^verbatim>\<open>URL()\<close> builds, for the account \<open>a\<close>, the share \<open>s\<close> and the path \<open>d\<close> of a
  directory or file.
\<close>

definition canonical_paths :: "bool \<Rightarrow> string \<Rightarrow> string \<Rightarrow> string \<Rightarrow> string list" where
  "canonical_paths isIP a s d =
     (if isIP then [[], ''/'' @ a, ''/'' @ a @ ''/'' @ s, ''/'' @ a @ ''/'' @ s @ ''/'' @ d]
      else [[], ''/'' @ s, ''/'' @ s @ ''/'' @ d])"

text \<open>
  A snapshot key is spelled in lower case and has one value, which is not empty and
  which a query holds as it is: unescaping leaves it as it is, and it has no \<^verbatim>\<open>&\<close> and
  no \<^verbatim>\<open>;\<close>.
\<close>

definition snapshot_plain :: "'sas collaborators \<Rightarrow> Values \<Rightarrow> bool" where
  "snapshot_plain env m =
     (\<forall>kv \<in> set m. strings_ToLower (fst kv) = shareSnapshot \<longrightarrow>
        fst kv = shareSnapshot \<and> length (snd kv) = 1 \<and> hd (snd kv) \<noteq> [] \<and>
        url_QueryUnescape env (hd (snd kv)) = Some (hd (snd kv)) \<and>
        CHR ''&'' \<notin> set (hd (snd kv)) \<and> CHR '';'' \<notin> set (hd (snd kv)))"

text \<open>
  The authorization sub-parser takes no key of the map and returns empty parameters.
\<close>

definition no_authorization :: "'sas collaborators \<Rightarrow> Values \<Rightarrow> bool" where
  "no_authorization env m =
     (snd (newSASQueryParameters env m True) = m \<and>
      SAS_Encode env (fst (newSASQueryParameters env m True)) = [])"

text \<open>
  A raw key and a raw value that \<^verbatim>\<open>parseQuery\<close> reads as the pair they stand for.
\<close>

definition raw_ok :: "(string \<Rightarrow> string option) \<Rightarrow> string \<times> string \<Rightarrow> string \<times> string \<Rightarrow> bool" where
  "raw_ok unescape raw kv =
     (unescape (fst raw) = Some (fst kv) \<and> unescape (snd raw) = Some (snd kv) \<and>
      CHR ''='' \<notin> set (fst raw) \<and>
      CHR ''&'' \<notin> set (fst raw) \<and> CHR ''&'' \<notin> set (snd raw) \<and>
      CHR '';'' \<notin> set (fst raw) \<and> CHR '';'' \<notin> set (snd raw))"

text \<open>
  The authorization sub-parser only takes entries out of the map (the keys stay
  distinct), and the encoding of what it returns is pieces \<^verbatim>\<open>key=value\<close> joined by \<^verbatim>\<open>&\<close>
  that \<^verbatim>\<open>parseQuery\<close> reads as the associations it took out: \<open>raws\<close> are the pieces and
  \<open>kvs\<close> the associations. This is weaker than \<open>no_authorization\<close>.
\<close>

definition authorization_kept ::
  "'sas collaborators \<Rightarrow> Values \<Rightarrow> (string \<times> string) list \<Rightarrow> (string \<times> string) list \<Rightarrow> bool" where
  "authorization_kept env m raws kvs =
     (distinct (map fst (snd (newSASQueryParameters env m True))) \<and>
      SAS_Encode env (fst (newSASQueryParameters env m True)) = spec_join (map raw_piece raws) \<and>
      list_all2 (raw_ok (url_QueryUnescape env)) raws kvs \<and>
      associations m = associations (snd (newSASQueryParameters env m True)) + mset kvs)"

text \<open>
  \<^verbatim>\<open>url.QueryUnescape\<close> undoes \<^verbatim>\<open>url.QueryEscape\<close>, an escaped text has none of the
  separators of a query, and the snapshot key is read as it is.
\<close>

definition escaping_sound :: "'sas collaborators \<Rightarrow> bool" where
  "escaping_sound env =
     ((\<forall>s. url_QueryUnescape env (url_QueryEscape env s) = Some s \<and>
           CHR ''&'' \<notin> set (url_QueryEscape env s) \<and> CHR ''='' \<notin> set (url_QueryEscape env s) \<and>
           CHR '';'' \<notin> set (url_QueryEscape env s)) \<and>
      url_QueryUnescape env shareSnapshot = Some shareSnapshot)"

subsection \<open>Examples\<close>

text \<open>
  The examples of the spec: a URL with an empty path, one in named-host style and one
  in IP-endpoint style.
\<close>

definition example_empty_path :: url_URL where
  "example_empty_path =
     \<lparr>url_Scheme = ''https'', url_Host = ''account.file.core.windows.net'', url_Path = [],
      url_RawQuery = []\<rparr>"

definition example_named :: url_URL where
  "example_named =
     \<lparr>url_Scheme = ''https'', url_Host = ''account.service.example.com'',
      url_Path = ''/myshare/dir/file.txt'', url_RawQuery = []\<rparr>"

definition example_ip :: url_URL where
  "example_ip =
     \<lparr>url_Scheme = ''https'', url_Host = ''10.0.0.1:443'',
      url_Path = ''/myaccount/myshare/dir/file.txt'', url_RawQuery = []\<rparr>"

text \<open>
  A path with a slash after its only segment.
\<close>

definition example_share_slash :: url_URL where
  "example_share_slash =
     \<lparr>url_Scheme = ''https'', url_Host = ''account.file.core.windows.net'',
      url_Path = ''/myshare/'', url_RawQuery = []\<rparr>"

text \<open>
  Parts with a path of a file and no share name, and parts with every field set.
\<close>

definition example_no_share :: "Values FileURLParts" where
  "example_no_share =
     \<lparr>Scheme = ''https'', Host = ''account.file.core.windows.net'', ShareName = [],
      DirectoryOrFilePath = ''dir/file.txt'', ShareSnapshot = [], SAS = [],
      UnparsedParams = [], accountName = [], isIPEndpointStyle_field = False\<rparr>"

definition example_parts :: "Values FileURLParts" where
  "example_parts =
     \<lparr>Scheme = ''https'', Host = ''10.0.0.1:443'', ShareName = ''myshare'',
      DirectoryOrFilePath = ''dir/file.txt'', ShareSnapshot = ''2020-01-01T00:00:00Z'',
      SAS = [(''sig'', [''abc''])], UnparsedParams = ''foo=bar'', accountName = ''myaccount'',
      isIPEndpointStyle_field = True\<rparr>"

text \<open>
  A host that is an IPv6 literal in brackets, with no port:
  \<^verbatim>\<open>https://[::1]/myaccount/myshare\<close>.
\<close>

definition example_ipv6_no_port :: url_URL where
  "example_ipv6_no_port =
     \<lparr>url_Scheme = ''https'', url_Host = ''[::1]'', url_Path = ''/myaccount/myshare'',
      url_RawQuery = []\<rparr>"

text \<open>
  The spec's example of a snapshot key that is not in lower case.
\<close>

definition example_snapshot_cased :: url_URL where
  "example_snapshot_cased =
     \<lparr>url_Scheme = ''https'', url_Host = ''account.file.core.windows.net'',
      url_Path = ''/myshare/dir/file.txt'',
      url_RawQuery = ''ShareSnapshot=2020-01-01T00:00:00Z&foo=bar''\<rparr>"

text \<open>
  A URL with a snapshot, two values of one key, an escaped value and two keys of a
  shared access signature.
\<close>

definition example_roundtrip :: url_URL where
  "example_roundtrip =
     \<lparr>url_Scheme = ''https'', url_Host = ''10.0.0.1:443'',
      url_Path = ''/myaccount/myshare/dir/file.txt'',
      url_RawQuery =
        ''foo=bar&sharesnapshot=2020-01-01T00:00:00Z&sig=a%2Bb&Foo=b%20az&foo=qux&sv=2017-07-29''\<rparr>"

text \<open>
  A URL whose query has two values of the snapshot key, and what is built from its parts.
\<close>

definition example_two_snapshots :: url_URL where
  "example_two_snapshots =
     \<lparr>url_Scheme = ''https'', url_Host = ''account.file.core.windows.net'',
      url_Path = ''/myshare/dir/file.txt'',
      url_RawQuery = ''sharesnapshot=2020-01-01T00:00:00Z&sharesnapshot=2021-01-01T00:00:00Z''\<rparr>"

definition example_two_snapshots_built :: url_URL where
  "example_two_snapshots_built =
     \<lparr>url_Scheme = ''https'', url_Host = ''account.file.core.windows.net'',
      url_Path = ''/myshare/dir/file.txt'',
      url_RawQuery = ''sharesnapshot=2020-01-01T00:00:00Z''\<rparr>"

section \<open>Properties\<close>

subsection \<open>Strings and paths\<close>

lemma strings_Index_from_byte:
  "strings_Index_from i s [c] =
     (if c \<in> set s then int (i + length (takeWhile (\<lambda>x. x \<noteq> c) s)) else - 1)"
  by (induction s arbitrary: i) auto

lemma strings_Index_byte:
  "strings_Index s [c] = IndexByteString s c"
  by (simp add: strings_Index_def IndexByteString_def strings_Index_from_byte)

lemma take_length_takeWhile: "take (length (takeWhile P xs)) xs = takeWhile P xs"
  by (induction xs) auto

lemma drop_length_takeWhile: "drop (length (takeWhile P xs)) xs = dropWhile P xs"
  by (induction xs) auto

lemma length_takeWhile_less: "c \<in> set s \<Longrightarrow> length (takeWhile (\<lambda>x. x \<noteq> c) s) < length s"
  by (induction s) auto

lemma strings_Cut_none: "c \<notin> set s \<Longrightarrow> strings_Cut s c = (s, [])"
proof -
  assume "c \<notin> set s"
  then have a: "takeWhile (\<lambda>x. x \<noteq> c) s = s" and b: "dropWhile (\<lambda>x. x \<noteq> c) s = []"
    by (induction s) auto
  show ?thesis unfolding strings_Cut_def a b by simp
qed

lemma strings_Index_none: "strings_Index s [c] = - 1 \<longleftrightarrow> c \<notin> set s"
  by (simp add: strings_Index_byte IndexByteString_def)

lemma slices_at_Index:
  assumes "strings_Index s [c] \<noteq> - 1"
  shows "slice_to s (strings_Index s [c]) = Inr (fst (strings_Cut s c))"
    and "slice_from s (strings_Index s [c] + 1) = Inr (snd (strings_Cut s c))"
proof -
  let ?n = "length (takeWhile (\<lambda>x. x \<noteq> c) s)"
  from assms have mem: "c \<in> set s" by (simp add: strings_Index_none)
  then have idx: "strings_Index s [c] = int ?n"
    by (simp add: strings_Index_byte IndexByteString_def)
  have lt: "?n < length s" using mem by (rule length_takeWhile_less)
  show "slice_to s (strings_Index s [c]) = Inr (fst (strings_Cut s c))"
    unfolding idx using lt by (simp add: slice_to_def take_length_takeWhile strings_Cut_def)
  have "drop (Suc ?n) s = drop 1 (drop ?n s)" by simp
  then have d: "drop (Suc ?n) s = drop 1 (dropWhile (\<lambda>x. x \<noteq> c) s)"
    by (simp only: drop_length_takeWhile)
  show "slice_from s (strings_Index s [c] + 1) = Inr (snd (strings_Cut s c))"
    unfolding idx using lt d by (simp add: slice_from_def nat_add_distrib strings_Cut_def)
qed

lemma split_share_Cut: "split_share path = Inr (strings_Cut path CHR ''/'')"
proof (cases "strings_Index path ''/'' = - 1")
  case True
  then show ?thesis
    by (simp add: split_share_def strings_Cut_none strings_Index_none)
next
  case False
  then show ?thesis
    by (simp add: split_share_def slices_at_Index)
qed

lemma parse_path_eq:
  "parse_path isIP p =
     Inr (let path = (if take 1 p = ''/'' then drop 1 p else p) in
          if isIP
          then (fst (strings_Cut path CHR ''/''),
                fst (strings_Cut (snd (strings_Cut path CHR ''/'')) CHR ''/''),
                snd (strings_Cut (snd (strings_Cut path CHR ''/'')) CHR ''/''))
          else ([], fst (strings_Cut path CHR ''/''), snd (strings_Cut path CHR ''/'')))"
proof (cases p)
  case Nil
  then show ?thesis by (simp add: parse_path_def strings_Cut_def)
next
  case (Cons c0 t)
  define path where "path = (if c0 = CHR ''/'' then t else p)"
  have strip: "(if take 1 p = ''/'' then drop 1 p else p) = path"
    using Cons by (auto simp: path_def)
  have i0: "index_at p 0 = Inr c0" using Cons by (simp add: index_at_def)
  have s1: "(if c0 = CHR ''/'' then slice_from p 1 else Inr p) = Inr path"
    using Cons by (simp add: slice_from_def path_def)
  have ne: "p \<noteq> []" using Cons by simp
  show ?thesis
  proof (cases "strings_Index path ''/'' = - 1")
    case True
    then have "strings_Cut path CHR ''/'' = (path, [])"
      by (simp add: strings_Cut_none strings_Index_none)
    then show ?thesis
      unfolding parse_path_def strip using ne True
      by (simp add: i0 s1 split_share_Cut strings_Cut_none)
  next
    case False
    then show ?thesis
      unfolding parse_path_def strip using ne
      by (simp add: i0 s1 split_share_Cut slices_at_Index)
  qed
qed

subsection \<open>Maps and queries\<close>

lemma mset_range_order: "mset (range_order seed m) = mset m"
proof (induction seed arbitrary: m)
  case Nil
  show ?case by simp
next
  case (Cons s seed)
  show ?case
  proof (cases "m = []")
    case True
    then show ?thesis by simp
  next
    case False
    let ?i = "s mod length m"
    have lt: "?i < length m" using False by simp
    have "mset m = mset (take ?i m @ m ! ?i # drop (Suc ?i) m)"
      using id_take_nth_drop [OF lt] by simp
    then show ?thesis using False Cons.IH by simp
  qed
qed

text \<open>Every order of the entries is the order of some seed.\<close>

lemma range_order_complete: "mset ys = mset m \<Longrightarrow> \<exists>seed. range_order seed m = ys"
proof (induction ys arbitrary: m)
  case Nil
  then have "m = []" by simp
  then have "range_order [] m = []" by simp
  then show ?case ..
next
  case (Cons y ys)
  then have "y \<in> set m" by (metis list.set_intros(1) set_mset_mset)
  then obtain i where i: "i < length m" and y: "m ! i = y" by (auto simp: in_set_conv_nth)
  let ?rest = "take i m @ drop (Suc i) m"
  have "mset m = mset ?rest + {#y#}"
    using id_take_nth_drop [OF i] y
    by (metis add_mset_add_single mset.simps(2) mset_append union_mset_add_mset_right)
  with Cons.prems have "mset ys = mset ?rest" by simp
  from Cons.IH [OF this] obtain seed where seed: "range_order seed ?rest = ys" ..
  have ne: "m \<noteq> []" using i by auto
  have "range_order (i # seed) m = y # ys"
    using i y seed ne by simp
  then show ?case ..
qed

lemma set_range_order: "set (range_order seed m) = set m"
  using mset_range_order [of seed m] by (metis set_mset_mset)

lemma Get_loop_found:
  "Get_loop xs key = (v, True) \<Longrightarrow> \<exists>k. (k, v) \<in> set xs \<and> strings_ToLower k = key"
  by (induction xs key rule: Get_loop.induct) (auto split: if_splits)

lemma Get_loop_missing:
  "Get_loop xs key = (v, False) \<Longrightarrow> v = [] \<and> (\<forall>kv \<in> set xs. strings_ToLower (fst kv) \<noteq> key)"
  by (induction xs key rule: Get_loop.induct) (auto split: if_splits)

lemma Get_loop_unique:
  "(k, v) \<in> set xs \<Longrightarrow> strings_ToLower k = key \<Longrightarrow>
   (\<forall>kv \<in> set xs. strings_ToLower (fst kv) = key \<longrightarrow> snd kv = v) \<Longrightarrow>
   Get_loop xs key = (v, True)"
  by (induction xs key rule: Get_loop.induct) (auto split: if_splits)

lemma fst_set_values_append: "fst ` set (values_append m k v) = insert k (fst ` set m)"
  by (induction m k v rule: values_append.induct) auto

lemma values_ok_append: "values_ok m \<Longrightarrow> values_ok (values_append m k v)"
proof (induction m k v rule: values_append.induct)
  case (1 key v)
  show ?case by (simp add: values_ok_def)
next
  case (2 k vs m key v)
  then show ?case
    using fst_set_values_append [of m key v]
    by (auto simp: values_ok_def split: if_splits)
qed

lemma values_ok_pair: "values_ok m \<Longrightarrow> values_ok (parseQuery_pair unescape m key)"
  by (simp add: parseQuery_pair_def values_ok_append split: option.splits)

lemma values_ok_parseQuery: "values_ok m \<Longrightarrow> values_ok (parseQuery unescape m query)"
proof (induction unescape m query rule: parseQuery.induct)
  case (1 unescape m query)
  show ?case
  proof (cases "query = []")
    case True
    with "1.prems" show ?thesis by (subst parseQuery.simps) simp
  next
    case False
    have "values_ok (parseQuery_pair unescape m (fst (strings_Cut query CHR ''&'')))"
      using "1.prems" by (rule values_ok_pair)
    from "1.IH" [OF False this] show ?thesis
      using False by (subst parseQuery.simps) (simp only: if_False)
  qed
qed

lemma values_ok_Query: "values_ok (url_Query env u)"
proof -
  have "values_ok []" by (simp add: values_ok_def)
  then show ?thesis unfolding url_Query_def by (rule values_ok_parseQuery)
qed

lemma parse_snapshot_total:
  assumes "values_ok m"
  shows "\<exists>s. parse_snapshot seed m = Inr (s, if snd (caseInsensitiveValues_Get seed m shareSnapshot)
            then map_delete m shareSnapshot else m)"
proof (cases "caseInsensitiveValues_Get seed m shareSnapshot")
  case (Pair v b)
  show ?thesis
  proof (cases b)
    case False
    with Pair show ?thesis by (simp add: parse_snapshot_def)
  next
    case True
    with Pair have "Get_loop (range_order seed m) (strings_ToLower shareSnapshot) = (v, True)"
      by (simp add: caseInsensitiveValues_Get_def)
    then obtain k where "(k, v) \<in> set (range_order seed m)"
      using Get_loop_found by blast
    then have "(k, v) \<in> set m" by (simp add: set_range_order)
    with assms have "v \<noteq> []" by (auto simp: values_ok_def)
    then have "index_at v 0 = Inr (hd v)" by (cases v) (simp_all add: index_at_def)
    with Pair True show ?thesis by (simp add: parse_snapshot_def)
  qed
qed

subsection \<open>\<^verbatim>\<open>NewFileURLParts\<close> and \<^verbatim>\<open>URL\<close>\<close>

lemma strings_Cut_at: "c \<notin> set a \<Longrightarrow> strings_Cut (a @ c # r) c = (a, r)"
proof -
  assume "c \<notin> set a"
  then have t: "takeWhile (\<lambda>x. x \<noteq> c) (a @ c # r) = a"
    and d: "dropWhile (\<lambda>x. x \<noteq> c) (a @ c # r) = c # r"
    by (induction a) auto
  show ?thesis unfolding strings_Cut_def t d by simp
qed

text \<open>
  A path has one of three shapes: \<open>a\<close>, \<open>a/s\<close> or \<open>a/s/d\<close>, with no slash in \<open>a\<close> and \<open>s\<close>.
\<close>

lemma path_shapes:
  obtains a where "CHR ''/'' \<notin> set a" and "p = a"
  | a s where "CHR ''/'' \<notin> set a" and "CHR ''/'' \<notin> set s" and "p = a @ ''/'' @ s"
  | a s d where "CHR ''/'' \<notin> set a" and "CHR ''/'' \<notin> set s" and "p = a @ ''/'' @ s @ ''/'' @ d"
proof -
  have cut: "\<exists>a. CHR ''/'' \<notin> set a \<and> (q = a \<or> (\<exists>r. q = a @ ''/'' @ r))" for q :: string
  proof (cases "CHR ''/'' \<in> set q")
    case False
    then show ?thesis by blast
  next
    case True
    then obtain a r where "q = a @ CHR ''/'' # r" "CHR ''/'' \<notin> set a"
      by (meson split_list_first)
    then show ?thesis by auto
  qed
  from cut [of p] obtain a where a: "CHR ''/'' \<notin> set a" and p: "p = a \<or> (\<exists>r. p = a @ ''/'' @ r)"
    by blast
  show thesis
  proof (cases "p = a")
    case True
    with a show thesis by (rule that(1))
  next
    case False
    with p obtain r where r: "p = a @ ''/'' @ r" by blast
    from cut [of r] obtain s where s: "CHR ''/'' \<notin> set s"
      and rs: "r = s \<or> (\<exists>d. r = s @ ''/'' @ d)" by blast
    show thesis
    proof (cases "r = s")
      case True
      with a s r show thesis by (intro that(2)) simp_all
    next
      case False
      with rs obtain d where "r = s @ ''/'' @ d" by blast
      with a s r show thesis by (intro that(3)) simp_all
    qed
  qed
qed

lemma NewFileURLParts_returns:
  "\<exists>up. NewFileURLParts env seed u = Inr up \<and>
     Scheme up = url_Scheme u \<and> Host up = url_Host u \<and>
     isIPEndpointStyle_field up = isIPEndpointStyle env u \<and>
     (accountName up, ShareName up, DirectoryOrFilePath up) =
       path_fields (isIPEndpointStyle env u) (url_Path u)"
proof -
  obtain s where snap: "parse_snapshot seed (url_Query env u) =
      Inr (s, if snd (caseInsensitiveValues_Get seed (url_Query env u) shareSnapshot)
              then map_delete (url_Query env u) shareSnapshot else url_Query env u)"
    using parse_snapshot_total [OF values_ok_Query] by blast
  show ?thesis
    by (simp add: NewFileURLParts_def parse_path_eq snap Let_def strip_leading_slash_def
        path_fields_def split: prod.splits)
qed

lemma URL_fields:
  "url_Scheme (URL env up) = Scheme up"
  "url_Host (URL env up) = Host up"
  "url_Path (URL env up) =
     (if isIPEndpointStyle_field up \<and> accountName up \<noteq> [] then ''/'' @ accountName up else [])
     @ (if ShareName up \<noteq> []
        then ''/'' @ ShareName up
             @ (if DirectoryOrFilePath up \<noteq> [] then ''/'' @ DirectoryOrFilePath up else [])
        else [])"
  by (simp_all add: URL_def Let_def)

text \<open>
  C8: \<^verbatim>\<open>NewFileURLParts\<close> returns for every URL, every order of the map iteration and
  every behaviour of its collaborators: no index or slice of it is out of range. For an
  empty path the share name, the path of the directory or file and the account name
  are empty, and \<^verbatim>\<open>URL()\<close> of the result has an empty path.
\<close>

theorem NewFileURLParts_total:
  "\<exists>up. NewFileURLParts env seed u = Inr up \<and>
     (url_Path u = [] \<longrightarrow>
        ShareName up = [] \<and> DirectoryOrFilePath up = [] \<and> accountName up = [] \<and>
        url_Path (URL env up) = [])"
proof -
  obtain up where up: "NewFileURLParts env seed u = Inr up"
    and fields: "(accountName up, ShareName up, DirectoryOrFilePath up) =
       path_fields (isIPEndpointStyle env u) (url_Path u)"
    using NewFileURLParts_returns [of env seed u] by blast
  have "ShareName up = [] \<and> DirectoryOrFilePath up = [] \<and> accountName up = []"
    if "url_Path u = []"
    using fields that
    by (simp add: path_fields_def strip_leading_slash_def strings_Cut_def split: if_splits)
  moreover have "url_Path (URL env up) = []"
    if "ShareName up = [] \<and> DirectoryOrFilePath up = [] \<and> accountName up = []"
    using that by (simp add: URL_fields)
  ultimately show ?thesis using up by blast
qed

theorem NewFileURLParts_total_witness:
  "url_Path example_empty_path = [] \<and>
   (\<exists>up. NewFileURLParts go_env [] example_empty_path = Inr up \<and>
      ShareName up = [] \<and> DirectoryOrFilePath up = [] \<and> accountName up = [] \<and>
      url_Path (URL go_env up) = [])"
  using NewFileURLParts_total [of go_env "[]" example_empty_path]
  by (simp add: example_empty_path_def)

lemma example_named_style: "\<not> isIPEndpointStyle go_env example_named"
  by code_simp

lemma example_ip_style: "isIPEndpointStyle go_env example_ip"
  by code_simp

lemma strings_Cut_Nil: "strings_Cut [] c = ([], [])"
  by (simp add: strings_Cut_def)

text \<open>
  C9: for a URL in named-host style \<^verbatim>\<open>NewFileURLParts\<close> returns parts that are marked
  as not IP-endpoint style and whose account name is empty.
\<close>

theorem named_host_no_account:
  "\<not> isIPEndpointStyle env u \<Longrightarrow>
   \<exists>up. NewFileURLParts env seed u = Inr up \<and> \<not> isIPEndpointStyle_field up \<and>
        accountName up = []"
proof -
  assume named: "\<not> isIPEndpointStyle env u"
  obtain up where up: "NewFileURLParts env seed u = Inr up"
    and style: "isIPEndpointStyle_field up = isIPEndpointStyle env u"
    and fields: "(accountName up, ShareName up, DirectoryOrFilePath up) =
       path_fields (isIPEndpointStyle env u) (url_Path u)"
    using NewFileURLParts_returns [of env seed u] by blast
  from fields named have "accountName up = []" by (simp add: path_fields_def)
  with up style named show ?thesis by blast
qed

theorem named_host_no_account_witness:
  "\<not> isIPEndpointStyle go_env example_named \<and>
   (\<exists>up. NewFileURLParts go_env [] example_named = Inr up \<and> \<not> isIPEndpointStyle_field up \<and>
        accountName up = [])"
  using named_host_no_account [of go_env example_named "[]"] example_named_style by simp

text \<open>
  C4: for a URL in IP-endpoint style with a non-empty path, with one leading slash
  removed: the text up to the first slash is the account name; the text between the
  first and the second slash is the share name; all after the second slash, further
  slashes included, is the path of the directory or file. The three shapes a path can
  have are: \<open>a\<close>, \<open>a/s\<close> and \<open>a/s/d\<close>, with no slash in \<open>a\<close> and \<open>s\<close>.
\<close>

theorem IPEndpoint_path_segments:
  assumes "isIPEndpointStyle env u" and "url_Path u \<noteq> []"
    and "CHR ''/'' \<notin> set a" and "CHR ''/'' \<notin> set s"
  shows "\<exists>up. NewFileURLParts env seed u = Inr up \<and>
     (strip_leading_slash (url_Path u) = a \<longrightarrow>
        accountName up = a \<and> ShareName up = [] \<and> DirectoryOrFilePath up = []) \<and>
     (strip_leading_slash (url_Path u) = a @ ''/'' @ s \<longrightarrow>
        accountName up = a \<and> ShareName up = s \<and> DirectoryOrFilePath up = []) \<and>
     (strip_leading_slash (url_Path u) = a @ ''/'' @ s @ ''/'' @ d \<longrightarrow>
        accountName up = a \<and> ShareName up = s \<and> DirectoryOrFilePath up = d)"
proof -
  obtain up where up: "NewFileURLParts env seed u = Inr up"
    and fields: "(accountName up, ShareName up, DirectoryOrFilePath up) =
       path_fields (isIPEndpointStyle env u) (url_Path u)"
    using NewFileURLParts_returns [of env seed u] by blast
  have f: "accountName up = fst (strings_Cut (strip_leading_slash (url_Path u)) CHR ''/'')"
    "(ShareName up, DirectoryOrFilePath up) =
       strings_Cut (snd (strings_Cut (strip_leading_slash (url_Path u)) CHR ''/'')) CHR ''/''"
    using fields assms(1) by (simp_all add: path_fields_def)
  have c1: "accountName up = a \<and> ShareName up = [] \<and> DirectoryOrFilePath up = []"
    if "strip_leading_slash (url_Path u) = a"
    using f assms(3) by (simp add: that strings_Cut_none strings_Cut_Nil)
  have c2: "accountName up = a \<and> ShareName up = s \<and> DirectoryOrFilePath up = []"
    if "strip_leading_slash (url_Path u) = a @ ''/'' @ s"
    using f assms(3,4) by (simp add: that strings_Cut_at strings_Cut_none strings_Cut_Nil)
  have c3: "accountName up = a \<and> ShareName up = s \<and> DirectoryOrFilePath up = d"
    if "strip_leading_slash (url_Path u) = a @ ''/'' @ s @ ''/'' @ d"
    using f assms(3,4) by (simp add: that strings_Cut_at)
  from up c1 c2 c3 show ?thesis by blast
qed

theorem IPEndpoint_path_segments_witness:
  "isIPEndpointStyle go_env example_ip \<and> url_Path example_ip \<noteq> [] \<and>
   strip_leading_slash (url_Path example_ip) = ''myaccount/myshare/dir/file.txt'' \<and>
   (\<exists>up. NewFileURLParts go_env [] example_ip = Inr up \<and>
      accountName up = ''myaccount'' \<and> ShareName up = ''myshare'' \<and>
      DirectoryOrFilePath up = ''dir/file.txt'')"
proof -
  have p: "strip_leading_slash (url_Path example_ip) = ''myaccount/myshare/dir/file.txt''"
    by (simp add: example_ip_def strip_leading_slash_def)
  have ne: "url_Path example_ip \<noteq> []" by (simp add: example_ip_def)
  from IPEndpoint_path_segments [OF example_ip_style ne,
      of "''myaccount''" "''myshare''" "[]" "''dir/file.txt''"]
  show ?thesis using example_ip_style ne p by simp
qed

text \<open>
  C5: for a URL in named-host style with a non-empty path, with one leading slash
  removed: the text up to the first slash is the share name and all after it is the
  path of the directory or file. The two shapes a path can have are \<open>s\<close> and
  \<open>s/d\<close>, with no slash in \<open>s\<close>.
\<close>

theorem NamedHost_path_segments:
  assumes "\<not> isIPEndpointStyle env u" and "url_Path u \<noteq> []" and "CHR ''/'' \<notin> set s"
  shows "\<exists>up. NewFileURLParts env seed u = Inr up \<and>
     (strip_leading_slash (url_Path u) = s \<longrightarrow>
        ShareName up = s \<and> DirectoryOrFilePath up = []) \<and>
     (strip_leading_slash (url_Path u) = s @ ''/'' @ d \<longrightarrow>
        ShareName up = s \<and> DirectoryOrFilePath up = d)"
proof -
  obtain up where up: "NewFileURLParts env seed u = Inr up"
    and fields: "(accountName up, ShareName up, DirectoryOrFilePath up) =
       path_fields (isIPEndpointStyle env u) (url_Path u)"
    using NewFileURLParts_returns [of env seed u] by blast
  have f: "(ShareName up, DirectoryOrFilePath up) =
       strings_Cut (strip_leading_slash (url_Path u)) CHR ''/''"
    using fields assms(1) by (simp add: path_fields_def)
  have c1: "ShareName up = s \<and> DirectoryOrFilePath up = []"
    if "strip_leading_slash (url_Path u) = s"
    using f assms(3) by (simp add: that strings_Cut_none)
  have c2: "ShareName up = s \<and> DirectoryOrFilePath up = d"
    if "strip_leading_slash (url_Path u) = s @ ''/'' @ d"
    using f assms(3) by (simp add: that strings_Cut_at)
  from up c1 c2 show ?thesis by blast
qed

theorem NamedHost_path_segments_witness:
  "\<not> isIPEndpointStyle go_env example_named \<and> url_Path example_named \<noteq> [] \<and>
   strip_leading_slash (url_Path example_named) = ''myshare/dir/file.txt'' \<and>
   (\<exists>up. NewFileURLParts go_env [] example_named = Inr up \<and>
      ShareName up = ''myshare'' \<and> DirectoryOrFilePath up = ''dir/file.txt'')"
proof -
  have p: "strip_leading_slash (url_Path example_named) = ''myshare/dir/file.txt''"
    by (simp add: example_named_def strip_leading_slash_def)
  have ne: "url_Path example_named \<noteq> []" by (simp add: example_named_def)
  from NamedHost_path_segments [OF example_named_style ne, of "''myshare''" "[]" "''dir/file.txt''"]
  show ?thesis using example_named_style ne p by simp
qed

lemma isIPEndpointStyle_Path [simp]:
  "isIPEndpointStyle env (u\<lparr>url_Path := p\<rparr>) = isIPEndpointStyle env u"
  by (simp add: isIPEndpointStyle_def)

lemma NewFileURLParts_cong:
  assumes "url_Scheme u = url_Scheme u'" and "url_Host u = url_Host u'"
    and "url_RawQuery u = url_RawQuery u'"
    and parse: "parse_path (isIPEndpointStyle env u') (url_Path u) =
         parse_path (isIPEndpointStyle env u') (url_Path u')"
  shows "NewFileURLParts env seed u = NewFileURLParts env seed u'"
proof -
  have style: "isIPEndpointStyle env u = isIPEndpointStyle env u'"
    using assms(2) by (simp add: isIPEndpointStyle_def)
  have query: "url_Query env u = url_Query env u'"
    using assms(3) by (simp add: url_Query_def)
  show ?thesis
    unfolding NewFileURLParts_def Let_def assms(1,2) query style by (simp only: parse)
qed

text \<open>
  C10: in named-host style the paths \<open>/seg/\<close> and \<open>/seg\<close> give the same parts: the
  share name is \<open>seg\<close>, the path of the directory or file is empty, and \<^verbatim>\<open>URL()\<close>
  builds the path \<open>/seg\<close>, with no slash at its end.
\<close>

theorem trailing_slash_same_parts:
  assumes "\<not> isIPEndpointStyle env u" and "CHR ''/'' \<notin> set seg" and "seg \<noteq> []"
  shows "NewFileURLParts env seed (u\<lparr>url_Path := ''/'' @ seg @ ''/''\<rparr>) =
           NewFileURLParts env seed (u\<lparr>url_Path := ''/'' @ seg\<rparr>) \<and>
         (\<exists>up. NewFileURLParts env seed (u\<lparr>url_Path := ''/'' @ seg @ ''/''\<rparr>) = Inr up \<and>
            ShareName up = seg \<and> DirectoryOrFilePath up = [] \<and>
            url_Path (URL env up) = ''/'' @ seg)"
proof -
  let ?u1 = "u\<lparr>url_Path := ''/'' @ seg @ ''/''\<rparr>" and ?u2 = "u\<lparr>url_Path := ''/'' @ seg\<rparr>"
  have style: "isIPEndpointStyle env u = False"
    using assms(1) by simp
  have p1: "parse_path False (CHR ''/'' # seg @ ''/'') = Inr ([], seg, [])"
    using assms(2) by (simp add: parse_path_eq strings_Cut_at)
  have p2: "parse_path False (CHR ''/'' # seg) = Inr ([], seg, [])"
    using assms(2) by (simp add: parse_path_eq strings_Cut_none)
  have same: "NewFileURLParts env seed ?u1 = NewFileURLParts env seed ?u2"
    by (rule NewFileURLParts_cong) (simp_all add: style p1 p2)
  obtain up where up: "NewFileURLParts env seed ?u1 = Inr up"
    and style_up: "isIPEndpointStyle_field up = isIPEndpointStyle env ?u1"
    and fields: "(accountName up, ShareName up, DirectoryOrFilePath up) =
       path_fields (isIPEndpointStyle env ?u1) (url_Path ?u1)"
    using NewFileURLParts_returns [of env seed ?u1] by blast
  from fields have f: "accountName up = []" "ShareName up = seg" "DirectoryOrFilePath up = []"
    using assms(2)
    by (simp_all add: style path_fields_def strip_leading_slash_def strings_Cut_at)
  have "url_Path (URL env up) = ''/'' @ seg"
    using assms(3) by (simp add: URL_fields f)
  with same up f show ?thesis by blast
qed

theorem trailing_slash_same_parts_witness:
  "\<not> isIPEndpointStyle go_env example_share_slash \<and> CHR ''/'' \<notin> set ''myshare'' \<and>
   NewFileURLParts go_env [] example_share_slash =
     NewFileURLParts go_env [] (example_share_slash\<lparr>url_Path := ''/myshare''\<rparr>) \<and>
   (\<exists>up. NewFileURLParts go_env [] example_share_slash = Inr up \<and>
      ShareName up = ''myshare'' \<and> DirectoryOrFilePath up = [] \<and>
      url_Path (URL go_env up) = ''/myshare'')"
proof -
  have named: "\<not> isIPEndpointStyle go_env example_share_slash" by code_simp
  have seg: "CHR ''/'' \<notin> set ''myshare''" "''myshare'' \<noteq> []" by simp_all
  have u: "example_share_slash\<lparr>url_Path := ''/'' @ ''myshare'' @ ''/''\<rparr> = example_share_slash"
    by (simp add: example_share_slash_def)
  have e: "''/'' @ ''myshare'' = ''/myshare''" by simp
  note inst = trailing_slash_same_parts [OF named seg, of "[]", unfolded u e]
  from inst named seg(1) show ?thesis by blast
qed

text \<open>
  C6, as the spec states it, fails: with an empty share name a path of the directory or
  file that is not empty is not in the path \<^verbatim>\<open>URL()\<close> builds.
\<close>

theorem URL_path_counterexample:
  "DirectoryOrFilePath example_no_share \<noteq> [] \<and>
   url_Path (URL go_env example_no_share) = [] \<and>
   url_Path (URL go_env example_no_share) \<noteq> spec_URL_path example_no_share"
  by (simp add: URL_fields spec_URL_path_def example_no_share_def)

text \<open>
  C6, amended: \<^verbatim>\<open>URL()\<close> builds the path from \<open>/accountName\<close>, if the parts are in
  IP-endpoint style and the account name is not empty, and then, if the share name is
  not empty, \<open>/shareName\<close>, followed by \<open>/directoryOrFilePath\<close> if that is not empty.
  The path of the directory or file is added only inside the test of the share name
  (lines 119 to 124).
\<close>

theorem URL_path:
  "url_Path (URL env up) =
     (if isIPEndpointStyle_field up \<and> accountName up \<noteq> [] then ''/'' @ accountName up else [])
     @ (if ShareName up \<noteq> []
        then ''/'' @ ShareName up
             @ (if DirectoryOrFilePath up \<noteq> [] then ''/'' @ DirectoryOrFilePath up else [])
        else [])"
  by (simp add: URL_def Let_def)

theorem URL_path_witness:
  "url_Path (URL go_env example_parts) = ''/myaccount/myshare/dir/file.txt''"
  using URL_path [of go_env example_parts] by (simp add: example_parts_def)

lemma URL_rawQuery_spec: "url_RawQuery (URL env up) = spec_URL_rawQuery env up"
  by (simp add: URL_def Let_def spec_URL_rawQuery_def shareSnapshot_def)

text \<open>
  C7: the raw query \<^verbatim>\<open>URL()\<close> builds is, in this order, the unparsed parameters, then
  \<open>sharesnapshot=<value>\<close> if the snapshot is not empty, then the encoded SAS if it is
  not empty, the segments that are present joined by \<^verbatim>\<open>&\<close>.
\<close>

theorem URL_rawQuery: "url_RawQuery (URL env up) = spec_URL_rawQuery env up"
  by (rule URL_rawQuery_spec)

theorem URL_rawQuery_witness:
  "url_RawQuery (URL go_env example_parts) = ''foo=bar&sharesnapshot=2020-01-01T00:00:00Z&sig=abc''"
proof -
  have "spec_URL_rawQuery go_env example_parts =
      ''foo=bar&sharesnapshot=2020-01-01T00:00:00Z&sig=abc''"
    by code_simp
  with URL_rawQuery [of go_env example_parts] show ?thesis by simp
qed

subsection \<open>The host \<^verbatim>\<open>[::1]\<close> and the key \<^verbatim>\<open>ShareSnapshot\<close>\<close>

text \<open>
  The three hosts of the spec's examples are classified as the spec says, and \<^verbatim>\<open>::1\<close>
  is an IP address for \<^verbatim>\<open>net.ParseIP\<close>.
\<close>

lemma isIPEndpointStyle_examples:
  "isIPEndpointStyle go_env (example_named\<lparr>url_Host := ''10.0.0.1:443''\<rparr>)"
  "isIPEndpointStyle go_env (example_named\<lparr>url_Host := ''[::1]:8080''\<rparr>)"
  "\<not> isIPEndpointStyle go_env (example_named\<lparr>url_Host := ''account.service.example.com''\<rparr>)"
  "ParseIP ''::1''"
  by code_simp+

text \<open>
  C3 at the host \<^verbatim>\<open>[::1]\<close>: the host has a colon, so line 35 calls
  \<^verbatim>\<open>net.SplitHostPort\<close>, which fails for want of a port, and \<^verbatim>\<open>isIPEndpointStyle\<close> is
  false, whatever \<^verbatim>\<open>net.ParseIP\<close> says of \<^verbatim>\<open>::1\<close>.
\<close>

theorem IPv6_host_without_port:
  "net_SplitHostPort (url_Host example_ipv6_no_port) = Inl MissingPort \<and>
   \<not> isIPEndpointStyle env example_ipv6_no_port"
proof -
  have idx: "strings_Index ''[::1]'' '':'' \<noteq> - 1" by code_simp
  have no_port: "net_SplitHostPort ''[::1]'' = Inl MissingPort" by code_simp
  show ?thesis
    by (simp add: isIPEndpointStyle_def example_ipv6_no_port_def idx no_port)
qed

lemma Get_unique:
  assumes "(k, v) \<in> set m" and "strings_ToLower k = strings_ToLower key"
    and "\<forall>kv \<in> set m. strings_ToLower (fst kv) = strings_ToLower key \<longrightarrow> snd kv = v"
  shows "caseInsensitiveValues_Get seed m key = (v, True)"
  unfolding caseInsensitiveValues_Get_def
  using assms by (intro Get_loop_unique [of k]) (simp_all add: set_range_order)

text \<open>
  C2 at the spec's example, for every order of the map iteration: the snapshot is found
  under the key \<^verbatim>\<open>ShareSnapshot\<close>, and line 92 deletes the key \<^verbatim>\<open>sharesnapshot\<close>, which is
  not in the map; \<^verbatim>\<open>ShareSnapshot\<close> stays among the unparsed parameters.
\<close>

theorem snapshot_key_cased_stays:
  "NewFileURLParts go_env seed example_snapshot_cased =
     Inr \<lparr>Scheme = ''https'', Host = ''account.file.core.windows.net'', ShareName = ''myshare'',
          DirectoryOrFilePath = ''dir/file.txt'', ShareSnapshot = ''2020-01-01T00:00:00Z'',
          SAS = [], UnparsedParams = ''ShareSnapshot=2020-01-01T00%3A00%3A00Z&foo=bar'',
          accountName = [], isIPEndpointStyle_field = False\<rparr>"
proof -
  let ?m = "[(''ShareSnapshot'', [''2020-01-01T00:00:00Z'']), (''foo'', [''bar''])]"
  have query: "url_Query go_env example_snapshot_cased = ?m"
    by code_simp
  have lower: "strings_ToLower ''ShareSnapshot'' = strings_ToLower shareSnapshot"
    "strings_ToLower ''foo'' \<noteq> strings_ToLower shareSnapshot"
    by code_simp+
  have get: "caseInsensitiveValues_Get seed ?m shareSnapshot = ([''2020-01-01T00:00:00Z''], True)"
    by (rule Get_unique [of "''ShareSnapshot''"]) (simp_all add: lower)
  have snap: "parse_snapshot seed ?m = Inr (''2020-01-01T00:00:00Z'', ?m)"
  proof -
    have "map_delete ?m shareSnapshot = ?m" by code_simp
    then show ?thesis by (simp add: parse_snapshot_def get index_at_def)
  qed
  have style: "isIPEndpointStyle go_env example_snapshot_cased = False" by code_simp
  have path: "parse_path False (url_Path example_snapshot_cased) =
      Inr ([], ''myshare'', ''dir/file.txt'')" by code_simp
  have sas: "newSASQueryParameters go_env ?m True = ([], ?m)" by code_simp
  have enc: "Values_Encode (url_QueryEscape go_env) ?m =
      ''ShareSnapshot=2020-01-01T00%3A00%3A00Z&foo=bar''" by code_simp
  have fields: "url_Scheme example_snapshot_cased = ''https''"
    "url_Host example_snapshot_cased = ''account.file.core.windows.net''"
    by (simp_all add: example_snapshot_cased_def)
  show ?thesis
    unfolding NewFileURLParts_def Let_def style path query 
    by (simp add: snap sas enc fields)
qed

text \<open>
  \<^verbatim>\<open>URL()\<close> of these parts has the snapshot twice.
\<close>

lemma snapshot_key_cased_URL:
  "url_RawQuery (URL go_env
     \<lparr>Scheme = ''https'', Host = ''account.file.core.windows.net'', ShareName = ''myshare'',
          DirectoryOrFilePath = ''dir/file.txt'', ShareSnapshot = ''2020-01-01T00:00:00Z'',
          SAS = [], UnparsedParams = ''ShareSnapshot=2020-01-01T00%3A00%3A00Z&foo=bar'',
          accountName = [], isIPEndpointStyle_field = False\<rparr>) =
   ''ShareSnapshot=2020-01-01T00%3A00%3A00Z&foo=bar&sharesnapshot=2020-01-01T00:00:00Z''"
  by code_simp

subsection \<open>Parsing what \<^verbatim>\<open>Values.Encode\<close> writes\<close>

lemma spec_join_Cons: "ps \<noteq> [] \<Longrightarrow> spec_join (p # ps) = p @ ''&'' @ spec_join ps"
  by (cases ps) simp_all

lemma spec_join_glue: "spec_join ((a @ ''&'' @ p) # ps) = a @ ''&'' @ spec_join (p # ps)"
  by (cases ps) simp_all

lemma foldl_amp_append:
  "\<forall>p \<in> set ps. p \<noteq> [] \<Longrightarrow>
   foldl amp_append buf ps = spec_join ((if buf = [] then [] else [buf]) @ ps)"
proof (induction ps arbitrary: buf)
  case Nil
  show ?case by simp
next
  case (Cons p ps)
  then have p: "p \<noteq> []" and rest: "\<forall>q \<in> set ps. q \<noteq> []" by simp_all
  have ne: "amp_append buf p \<noteq> []" using p by (simp add: amp_append_def)
  have "foldl amp_append buf (p # ps) = spec_join (amp_append buf p # ps)"
    using Cons.IH [OF rest, of "amp_append buf p"] ne by simp
  also have "\<dots> = spec_join ((if buf = [] then [] else [buf]) @ p # ps)"
  proof (cases "buf = []")
    case True
    then show ?thesis by (simp add: amp_append_def)
  next
    case False
    then have "amp_append buf p = buf @ ''&'' @ p" by (simp add: amp_append_def)
    then show ?thesis using False spec_join_glue [of buf p ps] by simp
  qed
  finally show ?case .
qed

lemma Encode_values_foldl:
  "Encode_values escape ke vs buf = foldl amp_append buf (map (\<lambda>v. ke @ ''='' @ escape v) vs)"
  by (induction vs arbitrary: buf) (simp_all add: amp_append_def)

lemma Encode_keys_foldl:
  "Encode_keys escape v keys buf =
     foldl amp_append buf
       (map (\<lambda>kv. raw_piece (escape (fst kv), escape (snd kv))) (Encode_pairs v keys))"
proof (induction keys arbitrary: buf)
  case Nil
  show ?case by (simp add: Encode_pairs_def)
next
  case (Cons k keys)
  have "Encode_pairs v (k # keys) = map (Pair k) (values_lookup v k) @ Encode_pairs v keys"
    by (simp add: Encode_pairs_def)
  then show ?case
    by (simp add: Cons.IH Encode_values_foldl raw_piece_def comp_def)
qed

lemma raw_piece_nonempty: "raw_piece kv \<noteq> []"
  by (simp add: raw_piece_def)

lemma Values_Encode_join:
  "Values_Encode escape v =
     spec_join (map (\<lambda>kv. raw_piece (escape (fst kv), escape (snd kv)))
       (Encode_pairs v (sort (map fst v))))"
proof (cases "v = []")
  case True
  then show ?thesis by (simp add: Values_Encode_def Encode_pairs_def)
next
  case False
  have "\<forall>p \<in> set (map (\<lambda>kv. raw_piece (escape (fst kv), escape (snd kv)))
       (Encode_pairs v (sort (map fst v)))). p \<noteq> []"
    by (simp add: raw_piece_nonempty)
  from foldl_amp_append [OF this, of "[]"] False show ?thesis
    by (simp add: Values_Encode_def Encode_keys_foldl)
qed

text \<open>\<^verbatim>\<open>parseQuery\<close> on pieces joined by \<^verbatim>\<open>&\<close>.\<close>

lemma parseQuery_Nil: "parseQuery unescape m [] = m"
  by (subst parseQuery.simps) simp

lemma parseQuery_step:
  "query \<noteq> [] \<Longrightarrow>
   parseQuery unescape m query =
     parseQuery unescape (parseQuery_pair unescape m (fst (strings_Cut query CHR ''&'')))
       (snd (strings_Cut query CHR ''&''))"
  by (subst parseQuery.simps) simp

lemma parseQuery_join:
  "\<forall>p \<in> set ps. p \<noteq> [] \<and> CHR ''&'' \<notin> set p \<Longrightarrow>
   parseQuery unescape m (spec_join ps) = foldl (parseQuery_pair unescape) m ps"
proof (induction ps arbitrary: m)
  case Nil
  show ?case by (simp add: parseQuery_Nil)
next
  case (Cons p ps)
  then have p: "p \<noteq> []" "CHR ''&'' \<notin> set p"
    and rest: "\<forall>q \<in> set ps. q \<noteq> [] \<and> CHR ''&'' \<notin> set q" by simp_all
  have cut: "strings_Cut (spec_join (p # ps)) CHR ''&'' = (p, spec_join ps)"
  proof (cases "ps = []")
    case True
    then show ?thesis using p by (simp add: strings_Cut_none)
  next
    case False
    then have "spec_join (p # ps) = p @ CHR ''&'' # spec_join ps"
      by (simp add: spec_join_Cons)
    then show ?thesis using p by (simp add: strings_Cut_at)
  qed
  have ne: "spec_join (p # ps) \<noteq> []" using p by (cases ps) simp_all
  show ?case
    using Cons.IH [OF rest] by (simp add: parseQuery_step [OF ne] cut)
qed

lemma parseQuery_pair_raw:
  "raw_ok unescape raw kv \<Longrightarrow>
   parseQuery_pair unescape m (raw_piece raw) = values_append m (fst kv) (snd kv)"
  by (simp add: raw_ok_def parseQuery_pair_def raw_piece_def strings_Cut_at)

lemma parseQuery_raws:
  "list_all2 (raw_ok unescape) raws kvs \<Longrightarrow>
   parseQuery unescape m (spec_join (map raw_piece raws)) =
     foldl (\<lambda>m kv. values_append m (fst kv) (snd kv)) m kvs"
proof -
  assume ok: "list_all2 (raw_ok unescape) raws kvs"
  have pieces: "\<forall>p \<in> set (map raw_piece raws). p \<noteq> [] \<and> CHR ''&'' \<notin> set p"
    using ok by (induction raws kvs rule: list_all2_induct) (simp_all add: raw_piece_def raw_ok_def)
  have "foldl (parseQuery_pair unescape) m (map raw_piece raws) =
      foldl (\<lambda>m kv. values_append m (fst kv) (snd kv)) m kvs"
    using ok
    by (induction raws kvs arbitrary: m rule: list_all2_induct)
      (simp_all add: parseQuery_pair_raw)
  with parseQuery_join [OF pieces] show ?thesis by simp
qed

lemma associations_Nil: "associations [] = {#}"
  by (simp add: associations_def)

lemma associations_Cons:
  "associations (kv # m) = mset (map (Pair (fst kv)) (snd kv)) + associations m"
  by (simp add: associations_def)

lemma associations_append: "associations (values_append m k v) = associations m + {#(k, v)#}"
  by (induction m k v rule: values_append.induct) (simp_all add: associations_Cons associations_Nil)

lemma associations_foldl:
  "associations (foldl (\<lambda>m kv. values_append m (fst kv) (snd kv)) m kvs) =
     associations m + mset kvs"
  by (induction kvs arbitrary: m) (simp_all add: associations_append)

lemma mset_Encode_pairs: "mset (Encode_pairs v keys) =
   (\<Sum>k\<in>#mset keys. mset (map (Pair k) (values_lookup v k)))"
proof -
  have "mset (Encode_pairs v keys) = (\<Sum>k\<leftarrow>keys. mset (map (Pair k) (values_lookup v k)))"
    unfolding Encode_pairs_def mset_concat by (simp add: comp_def)
  also have "\<dots> = (\<Sum>k\<in>#mset keys. mset (map (Pair k) (values_lookup v k)))"
    by (induction keys) simp_all
  finally show ?thesis .
qed

lemma values_lookup_distinct:
  "distinct (map fst m) \<Longrightarrow> kv \<in> set m \<Longrightarrow> values_lookup m (fst kv) = snd kv"
  by (cases kv) (simp add: values_lookup_def)

lemma mset_Encode_pairs_sorted:
  assumes "distinct (map fst m)"
  shows "mset (Encode_pairs m (sort (map fst m))) = associations m"
proof -
  have "mset (Encode_pairs m (sort (map fst m))) = mset (Encode_pairs m (map fst m))"
    by (simp add: mset_Encode_pairs)
  also have "Encode_pairs m (map fst m) =
      concat (map (\<lambda>kv. map (Pair (fst kv)) (values_lookup m (fst kv))) m)"
    by (simp add: Encode_pairs_def comp_def)
  also have "\<dots> = concat (map (\<lambda>kv. map (Pair (fst kv)) (snd kv)) m)"
    using values_lookup_distinct [OF assms] by (auto intro!: arg_cong [where f = concat])
  finally show ?thesis by (simp add: associations_def)
qed

lemma map_delete_absent: "key \<notin> fst ` set m \<Longrightarrow> map_delete m key = m"
  by (induction m) (auto simp: map_delete_def)

lemma associations_map_delete:
  "distinct (map fst m) \<Longrightarrow> (key, vs) \<in> set m \<Longrightarrow>
   associations m = associations (map_delete m key) + mset (map (Pair key) vs)"
proof (induction m)
  case Nil
  then show ?case by simp
next
  case (Cons kv m)
  show ?case
  proof (cases "fst kv = key")
    case True
    with Cons.prems have "key \<notin> fst ` set m" by auto
    then have "map_delete m key = m" by (rule map_delete_absent)
    then have del: "map_delete (kv # m) key = m" using True by (simp add: map_delete_def)
    from Cons.prems True have "snd kv = vs" by (cases kv) (auto simp: image_iff)
    then show ?thesis using True by (simp add: del associations_Cons)
  next
    case False
    with Cons.prems have "(key, vs) \<in> set m" "distinct (map fst m)" by auto
    from Cons.IH [OF this(2,1)] False show ?thesis
      by (simp add: associations_Cons map_delete_def)
  qed
qed

lemma values_ok_map_delete: "values_ok m \<Longrightarrow> values_ok (map_delete m key)"
  by (auto simp: values_ok_def map_delete_def distinct_map_filter)

lemma spec_join_empty: "\<forall>p \<in> set ps. p \<noteq> [] \<Longrightarrow> spec_join ps = [] \<longleftrightarrow> ps = []"
  by (induction ps rule: spec_join.induct) simp_all

lemma spec_join_append:
  "\<forall>p \<in> set ps. p \<noteq> [] \<Longrightarrow>
   spec_join (ps @ qs) =
     (if ps = [] then spec_join qs else if qs = [] then spec_join ps
      else spec_join ps @ ''&'' @ spec_join qs)"
proof (induction ps rule: spec_join.induct)
  case 1
  show ?case by simp
next
  case (2 x)
  show ?case by (cases qs) simp_all
next
  case (3 x y segments)
  then show ?case by simp
qed

lemma spec_join_concat:
  "\<forall>ps \<in> set pss. \<forall>p \<in> set ps. p \<noteq> [] \<Longrightarrow>
   spec_join (filter (\<lambda>segment. segment \<noteq> []) (map spec_join pss)) = spec_join (concat pss)"
proof (induction pss)
  case Nil
  show ?case by simp
next
  case (Cons ps pss)
  let ?F = "filter (\<lambda>segment. segment \<noteq> []) (map spec_join pss)"
  from Cons.prems have ps: "\<forall>p \<in> set ps. p \<noteq> []"
    and rest: "\<forall>qs \<in> set pss. \<forall>p \<in> set qs. p \<noteq> []" by simp_all
  from rest have all: "\<forall>p \<in> set (concat pss). p \<noteq> []" by auto
  have IH: "spec_join ?F = spec_join (concat pss)" using Cons.IH [OF rest] .
  have F: "\<forall>p \<in> set ?F. p \<noteq> []" by simp
  show ?case
  proof (cases "ps = []")
    case True
    then show ?thesis using IH by simp
  next
    case False
    then have ne: "spec_join ps \<noteq> []" using spec_join_empty [OF ps] by simp
    show ?thesis
    proof (cases "?F = []")
      case True
      with IH have "spec_join (concat pss) = []" by simp
      then have e: "concat pss = []" using spec_join_empty [OF all] by simp
      have "spec_join (filter (\<lambda>segment. segment \<noteq> []) (map spec_join (ps # pss))) =
          spec_join ps"
        using True ne by simp
      moreover have "spec_join (concat (ps # pss)) = spec_join ps"
        unfolding concat.simps e by simp
      ultimately show ?thesis by simp
    next
      case F_ne: False
      then have Fj: "spec_join ?F \<noteq> []" using spec_join_empty [OF F] by simp
      have c: "concat pss \<noteq> []"
      proof
        assume "concat pss = []"
        then have "spec_join (concat pss) = []" by (simp only: spec_join.simps)
        with IH Fj show False by (simp only:)
      qed
      have "spec_join (spec_join ps # ?F) = spec_join ps @ ''&'' @ spec_join ?F"
        using F_ne by (rule spec_join_Cons)
      moreover have "spec_join (ps @ concat pss) = spec_join ps @ ''&'' @ spec_join (concat pss)"
        using spec_join_append [OF ps, of "concat pss"] False c by simp
      ultimately show ?thesis using ne IH by simp
    qed
  qed
qed

subsection \<open>\<^verbatim>\<open>NewFileURLParts\<close> and then \<^verbatim>\<open>URL\<close>\<close>

lemma NewFileURLParts_eq:
  assumes "parse_snapshot seed (url_Query env u) = Inr (snapshot, paramsMap)"
  shows "NewFileURLParts env seed u =
     Inr \<lparr>Scheme = url_Scheme u, Host = url_Host u,
          ShareName = fst (snd (path_fields (isIPEndpointStyle env u) (url_Path u))),
          DirectoryOrFilePath = snd (snd (path_fields (isIPEndpointStyle env u) (url_Path u))),
          ShareSnapshot = snapshot, SAS = fst (newSASQueryParameters env paramsMap True),
          UnparsedParams =
            Values_Encode (url_QueryEscape env) (snd (newSASQueryParameters env paramsMap True)),
          accountName = fst (path_fields (isIPEndpointStyle env u) (url_Path u)),
          isIPEndpointStyle_field = isIPEndpointStyle env u\<rparr>"
  by (simp add: NewFileURLParts_def parse_path_eq assms Let_def strip_leading_slash_def
      path_fields_def split: prod.splits)

lemma strings_ToLower_shareSnapshot: "strings_ToLower shareSnapshot = shareSnapshot"
  by code_simp

lemma Get_loop_none:
  "\<forall>kv \<in> set xs. strings_ToLower (fst kv) \<noteq> key \<Longrightarrow> Get_loop xs key = ([], False)"
  by (induction xs key rule: Get_loop.induct) auto

lemma parse_snapshot_absent:
  assumes "snapshot_plain env m" and "shareSnapshot \<notin> fst ` set m"
  shows "parse_snapshot seed m = Inr ([], m)"
proof -
  have "\<forall>kv \<in> set m. strings_ToLower (fst kv) \<noteq> shareSnapshot"
  proof (intro ballI notI)
    fix kv assume kv: "kv \<in> set m" and "strings_ToLower (fst kv) = shareSnapshot"
    with assms(1) have "fst kv = shareSnapshot" unfolding snapshot_plain_def by blast
    with kv have "shareSnapshot \<in> fst ` set m" by force
    with assms(2) show False by contradiction
  qed
  then have "\<forall>kv \<in> set (range_order seed m). strings_ToLower (fst kv) \<noteq> shareSnapshot"
    by (simp add: set_range_order)
  then have "caseInsensitiveValues_Get seed m shareSnapshot = ([], False)"
    by (simp add: caseInsensitiveValues_Get_def strings_ToLower_shareSnapshot Get_loop_none)
  then show ?thesis by (simp add: parse_snapshot_def)
qed

lemma parse_snapshot_present:
  assumes "snapshot_plain env m" and "values_ok m" and "(shareSnapshot, vs) \<in> set m"
  shows "parse_snapshot seed m = Inr (hd vs, map_delete m shareSnapshot) \<and> vs = [hd vs]"
proof -
  have one: "length vs = 1"
    using assms(1,3) by (auto simp: snapshot_plain_def strings_ToLower_shareSnapshot)
  then have vs: "vs = [hd vs]" by (cases vs) simp_all
  have unique: "\<forall>kv \<in> set m.
      strings_ToLower (fst kv) = strings_ToLower shareSnapshot \<longrightarrow> snd kv = vs"
  proof
    fix kv assume kv: "kv \<in> set m"
    show "strings_ToLower (fst kv) = strings_ToLower shareSnapshot \<longrightarrow> snd kv = vs"
    proof
      assume "strings_ToLower (fst kv) = strings_ToLower shareSnapshot"
      with assms(1) kv have "fst kv = shareSnapshot"
        by (simp add: snapshot_plain_def strings_ToLower_shareSnapshot)
      then have "kv = (shareSnapshot, snd kv)" by (simp add: prod_eq_iff)
      with kv have "(shareSnapshot, snd kv) \<in> set m" by simp
      moreover have "distinct (map fst m)" using assms(2) by (simp add: values_ok_def)
      ultimately show "snd kv = vs" using assms(3) by (metis eq_key_imp_eq_value)
    qed
  qed
  have "caseInsensitiveValues_Get seed m shareSnapshot = (vs, True)"
    using assms(3) unique by (intro Get_unique [of shareSnapshot]) simp_all
  moreover have "index_at vs 0 = Inr (hd vs)" using one by (cases vs) (simp_all add: index_at_def)
  ultimately show ?thesis using vs by (simp add: parse_snapshot_def)
qed

lemma no_authorization_kept:
  "distinct (map fst m) \<Longrightarrow> no_authorization env m \<Longrightarrow> authorization_kept env m [] []"
  by (simp add: no_authorization_def authorization_kept_def)

lemma canonical_path_rebuilt:
  assumes "p \<in> set (canonical_paths isIP a s d)"
    and "a \<noteq> []" and "s \<noteq> []" and "d \<noteq> []" and "CHR ''/'' \<notin> set a" and "CHR ''/'' \<notin> set s"
  shows "(if isIP \<and> fst (path_fields isIP p) \<noteq> [] then ''/'' @ fst (path_fields isIP p) else [])
     @ (if fst (snd (path_fields isIP p)) \<noteq> []
        then ''/'' @ fst (snd (path_fields isIP p))
             @ (if snd (snd (path_fields isIP p)) \<noteq> []
                then ''/'' @ snd (snd (path_fields isIP p)) else [])
        else []) = p"
proof -
  have e: "path_fields isIP [] = ([], [], [])"
    by (simp add: path_fields_def strip_leading_slash_def strings_Cut_Nil)
  have n1: "path_fields False (''/'' @ s) = ([], s, [])"
    using assms(6) by (simp add: path_fields_def strip_leading_slash_def strings_Cut_none)
  have n2: "path_fields False (''/'' @ s @ ''/'' @ d) = ([], s, d)"
    using assms(6) by (simp add: path_fields_def strip_leading_slash_def strings_Cut_at)
  have i1: "path_fields True (''/'' @ a) = (a, [], [])"
    using assms(5)
    by (simp add: path_fields_def strip_leading_slash_def strings_Cut_none strings_Cut_Nil)
  have i2: "path_fields True (''/'' @ a @ ''/'' @ s) = (a, s, [])"
    using assms(5,6)
    by (simp add: path_fields_def strip_leading_slash_def strings_Cut_none strings_Cut_at)
  have i3: "path_fields True (''/'' @ a @ ''/'' @ s @ ''/'' @ d) = (a, s, d)"
    using assms(5,6)
    by (simp add: path_fields_def strip_leading_slash_def strings_Cut_at)
  from assms(1) consider "p = []" | "\<not> isIP" "p = ''/'' @ s" | "\<not> isIP" "p = ''/'' @ s @ ''/'' @ d"
    | "isIP" "p = ''/'' @ a" | "isIP" "p = ''/'' @ a @ ''/'' @ s"
    | "isIP" "p = ''/'' @ a @ ''/'' @ s @ ''/'' @ d"
    by (auto simp: canonical_paths_def split: if_splits)
  then show ?thesis
  proof cases
    case 1
    then show ?thesis by (simp add: e)
  next
    case 2
    then show ?thesis using assms(3) by (simp only: n1) simp
  next
    case 3
    then show ?thesis using assms(3,4) by (simp only: n2) simp
  next
    case 4
    then show ?thesis using assms(2) by (simp only: i1) simp
  next
    case 5
    then show ?thesis using assms(2,3) by (simp only: i2) simp
  next
    case 6
    then show ?thesis using assms(2,3,4) by (simp only: i3) simp
  qed
qed

lemma raw_ok_escaped:
  "escaping_sound env \<Longrightarrow>
   raw_ok (url_QueryUnescape env) (url_QueryEscape env (fst kv), url_QueryEscape env (snd kv)) kv"
  by (simp add: escaping_sound_def raw_ok_def)

lemma reparse_Encode:
  assumes sound: "escaping_sound env" and keys: "distinct (map fst m)"
    and more: "list_all2 (raw_ok (url_QueryUnescape env)) raws kvs"
  shows "associations (parseQuery (url_QueryUnescape env) []
           (spec_join (map raw_piece
              (map (\<lambda>kv. (url_QueryEscape env (fst kv), url_QueryEscape env (snd kv)))
                 (Encode_pairs m (sort (map fst m))) @ raws)))) =
         associations m + mset kvs"
proof -
  let ?kvs = "Encode_pairs m (sort (map fst m))"
  let ?raws = "map (\<lambda>kv. (url_QueryEscape env (fst kv), url_QueryEscape env (snd kv))) ?kvs"
  have "list_all2 (raw_ok (url_QueryUnescape env)) ?raws ?kvs"
    using raw_ok_escaped [OF sound] by (simp add: list_all2_conv_all_nth)
  then have "list_all2 (raw_ok (url_QueryUnescape env)) (?raws @ raws) (?kvs @ kvs)"
    using more by (rule list_all2_appendI)
  then have "parseQuery (url_QueryUnescape env) [] (spec_join (map raw_piece (?raws @ raws))) =
      foldl (\<lambda>m kv. values_append m (fst kv) (snd kv)) [] (?kvs @ kvs)"
    by (rule parseQuery_raws)
  then show ?thesis
    by (simp only: associations_foldl associations_Nil mset_append
        mset_Encode_pairs_sorted [OF keys] add_0)
qed

text \<open>
  C1, amended. Let the path of \<open>u\<close> be empty or one of the paths \<^verbatim>\<open>URL()\<close> builds (\<open>/a\<close>,
  \<open>/a/s\<close>, \<open>/a/s/d\<close> in IP-endpoint style, \<open>/s\<close>, \<open>/s/d\<close> in named-host style, with
  \<open>a\<close>, \<open>s\<close>, \<open>d\<close> not empty and no slash in \<open>a\<close> and \<open>s\<close>); let the query have the
  snapshot key in lower case only, with one value that is not empty and needs no
  escaping; let the authorization sub-parser only take entries out of the map and
  encode what it took as pieces that read as the associations taken; and let
  \<^verbatim>\<open>url.QueryUnescape\<close> undo \<^verbatim>\<open>url.QueryEscape\<close>. Then, for every order of the map
  iteration, \<^verbatim>\<open>URL(NewFileURLParts(u))\<close> has the scheme, the host and the path of \<open>u\<close>,
  and its query has the associations of the query of \<open>u\<close>, each as often. The keys of
  the authorization are not left out: the sub-parser of \<open>go_env\<close> meets the condition for
  every query (\<open>go_env_authorization_kept\<close>).
\<close>

theorem parse_then_build_equivalent:
  assumes sound: "escaping_sound env"
    and path: "url_Path u \<in> set (canonical_paths (isIPEndpointStyle env u) a s d)"
    and segs: "a \<noteq> []" "s \<noteq> []" "d \<noteq> []" "CHR ''/'' \<notin> set a" "CHR ''/'' \<notin> set s"
    and snap: "snapshot_plain env (url_Query env u)"
    and auth: "authorization_kept env (map_delete (url_Query env u) shareSnapshot) raws kvs"
  shows "\<exists>out. parse_then_build env seed u = Inr out \<and> observably_equivalent env u out \<and>
           associations (url_Query env out) = associations (url_Query env u)"
proof -
  let ?m = "url_Query env u"
  let ?m' = "map_delete ?m shareSnapshot"
  let ?m'' = "snd (newSASQueryParameters env ?m' True)"
  let ?un = "url_QueryUnescape env"
  let ?kvs = "Encode_pairs ?m'' (sort (map fst ?m''))"
  let ?raws = "map (\<lambda>kv. (url_QueryEscape env (fst kv), url_QueryEscape env (snd kv))) ?kvs"
  have ok: "values_ok ?m" by (rule values_ok_Query)
  then have keys: "distinct (map fst ?m)" by (simp add: values_ok_def)
  from auth have keys'': "distinct (map fst ?m'')"
    and sas_enc: "SAS_Encode env (fst (newSASQueryParameters env ?m' True)) =
        spec_join (map raw_piece raws)"
    and sas_ok: "list_all2 (raw_ok ?un) raws kvs"
    and sas_assoc: "associations ?m' = associations ?m'' + mset kvs"
    by (simp_all add: authorization_kept_def)
  have enc: "Values_Encode (url_QueryEscape env) ?m'' = spec_join (map raw_piece ?raws)"
    by (simp add: Values_Encode_join comp_def)
  obtain snapshot qraws where ps: "parse_snapshot seed ?m = Inr (snapshot, ?m')"
    and snap_piece: "(if snapshot \<noteq> [] then ''sharesnapshot='' @ snapshot else []) =
        spec_join (map raw_piece qraws)"
    and assoc: "associations ?m = associations ?m' + mset qraws"
    and q_ok: "list_all2 (raw_ok ?un) qraws qraws"
  proof (cases "shareSnapshot \<in> fst ` set ?m")
    case False
    then have "?m' = ?m" by (rule map_delete_absent)
    moreover from snap False have "parse_snapshot seed ?m = Inr ([], ?m)"
      by (rule parse_snapshot_absent)
    ultimately show thesis by (intro that [of "[]" "[]"]) simp_all
  next
    case True
    then obtain vs where vs: "(shareSnapshot, vs) \<in> set ?m" by force
    from parse_snapshot_present [OF snap ok vs, of seed]
    have p: "parse_snapshot seed ?m = Inr (hd vs, ?m')" and one: "vs = [hd vs]" by simp_all
    from snap vs have plain: "hd vs \<noteq> []" "?un (hd vs) = Some (hd vs)"
      "CHR ''&'' \<notin> set (hd vs)" "CHR '';'' \<notin> set (hd vs)"
      by (auto simp: snapshot_plain_def strings_ToLower_shareSnapshot)
    have c: "(if hd vs \<noteq> [] then ''sharesnapshot='' @ hd vs else []) =
        spec_join (map raw_piece [(shareSnapshot, hd vs)])"
      using plain(1) by (simp add: raw_piece_def shareSnapshot_def)
    have a: "associations ?m = associations ?m' + mset [(shareSnapshot, hd vs)]"
      using associations_map_delete [OF keys vs] one by (metis list.map(1) list.map(2))
    have k: "list_all2 (raw_ok ?un) [(shareSnapshot, hd vs)] [(shareSnapshot, hd vs)]"
      using sound plain by (simp add: raw_ok_def escaping_sound_def shareSnapshot_def)
    from p c a k show thesis by (rule that)
  qed
  let ?up = "\<lparr>Scheme = url_Scheme u, Host = url_Host u,
          ShareName = fst (snd (path_fields (isIPEndpointStyle env u) (url_Path u))),
          DirectoryOrFilePath = snd (snd (path_fields (isIPEndpointStyle env u) (url_Path u))),
          ShareSnapshot = snapshot, SAS = fst (newSASQueryParameters env ?m' True),
          UnparsedParams =
            Values_Encode (url_QueryEscape env) (snd (newSASQueryParameters env ?m' True)),
          accountName = fst (path_fields (isIPEndpointStyle env u) (url_Path u)),
          isIPEndpointStyle_field = isIPEndpointStyle env u\<rparr>"
  have up: "NewFileURLParts env seed u = Inr ?up"
    using ps by (rule NewFileURLParts_eq)
  then have out: "parse_then_build env seed u = Inr (URL env ?up)"
    by (simp add: parse_then_build_def)
  have scheme: "url_Scheme (URL env ?up) = url_Scheme u" and host: "url_Host (URL env ?up) = url_Host u"
    by (simp_all add: URL_fields)
  have p: "url_Path (URL env ?up) = url_Path u"
    by (simp only: URL_fields FileURLParts.simps canonical_path_rebuilt [OF path segs])
  have pieces: "\<forall>ps \<in> set [map raw_piece ?raws, map raw_piece qraws, map raw_piece raws].
      \<forall>p \<in> set ps. p \<noteq> []"
    by (auto simp: raw_piece_nonempty)
  have "url_RawQuery (URL env ?up) =
      spec_join (filter (\<lambda>segment. segment \<noteq> [])
        (map spec_join [map raw_piece ?raws, map raw_piece qraws, map raw_piece raws]))"
    unfolding URL_rawQuery_spec spec_URL_rawQuery_def
    by (simp only: FileURLParts.simps enc snap_piece sas_enc list.map)
  also have "\<dots> = spec_join (concat [map raw_piece ?raws, map raw_piece qraws, map raw_piece raws])"
    using pieces by (rule spec_join_concat)
  also have "\<dots> = spec_join (map raw_piece (?raws @ qraws @ raws))"
    by simp
  finally have "url_Query env (URL env ?up) =
      parseQuery ?un [] (spec_join (map raw_piece (?raws @ qraws @ raws)))"
    by (simp only: url_Query_def [of env "URL env ?up"])
  moreover have "list_all2 (raw_ok ?un) (qraws @ raws) (qraws @ kvs)"
    using q_ok sas_ok by (rule list_all2_appendI)
  ultimately have "associations (url_Query env (URL env ?up)) =
      associations ?m'' + mset (qraws @ kvs)"
    by (simp only: reparse_Encode [OF sound keys''])
  with assoc sas_assoc have q: "associations (url_Query env (URL env ?up)) = associations ?m"
    by simp
  then have "observably_equivalent env u (URL env ?up)"
    by (simp add: observably_equivalent_def scheme host p)
  with out q show ?thesis by blast
qed

subsection \<open>The escaping of Go\<close>

lemma hex_digits:
  "\<forall>d \<in> set [0..15]. ishex (upperhex ! nat d) \<and> unhex (upperhex ! nat d) = d \<and>
      upperhex ! nat d \<notin> set ''&=;''"
  by code_simp

lemma hex_digit:
  assumes "0 \<le> d" and "d < 16"
  shows "ishex (upperhex ! nat d)" and "unhex (upperhex ! nat d) = d"
    and "upperhex ! nat d \<notin> set ''&=;''"
proof -
  from assms have "d \<in> set [0..15]" by simp
  with hex_digits show "ishex (upperhex ! nat d)" and "unhex (upperhex ! nat d) = d"
    and "upperhex ! nat d \<notin> set ''&=;''" by blast+
qed

lemma of_char_int_range: "0 \<le> (of_char c :: int)" "(of_char c :: int) < 256"
proof -
  have "(of_char c :: int) = int (of_char c)" by (simp add: of_nat_of_char)
  then show "0 \<le> (of_char c :: int)" "(of_char c :: int) < 256" by simp_all
qed

lemma shouldEscape_separators:
  "shouldEscape CHR ''%''" "shouldEscape CHR ''+''" "shouldEscape CHR ''&''"
  "shouldEscape CHR ''=''" "shouldEscape CHR '';''"
  by code_simp+

lemma not_shouldEscape:
  assumes "\<not> shouldEscape c"
  shows "c \<noteq> CHR ''%''" "c \<noteq> CHR ''+''" "c \<noteq> CHR ''&''" "c \<noteq> CHR ''=''" "c \<noteq> CHR '';''"
  using assms shouldEscape_separators by blast+

lemma QueryUnescape_QueryEscape: "QueryUnescape (QueryEscape s) = Some s"
proof (induction s)
  case Nil
  show ?case by simp
next
  case (Cons c s)
  let ?n = "of_char c :: int"
  have hi: "0 \<le> ?n div 16" "?n div 16 < 16" and lo: "0 \<le> ?n mod 16" "?n mod 16 < 16"
    using of_char_int_range [of c] by simp_all
  have restore: "char_of (unhex (upperhex ! nat (?n div 16)) * 16 + unhex (upperhex ! nat (?n mod 16))) = c"
  proof -
    have "?n div 16 * 16 + ?n mod 16 = ?n" by simp
    then show ?thesis by (simp only: hex_digit(2) [OF hi] hex_digit(2) [OF lo] char_of_char)
  qed
  show ?case
  proof (cases "shouldEscape c")
    case False
    then show ?thesis using Cons.IH not_shouldEscape(1,2) [OF False] by simp
  next
    case True
    then show ?thesis
      using Cons.IH hex_digit(1) [OF hi] hex_digit(1) [OF lo] restore by simp
  qed
qed

lemma QueryEscape_separators: "set (QueryEscape s) \<inter> set ''&=;'' = {}"
proof (induction s)
  case Nil
  show ?case by simp
next
  case (Cons c s)
  let ?n = "of_char c :: int"
  have hi: "0 \<le> ?n div 16" "?n div 16 < 16" and lo: "0 \<le> ?n mod 16" "?n mod 16 < 16"
    using of_char_int_range [of c] by simp_all
  show ?case
  proof (cases "shouldEscape c")
    case False
    then show ?thesis using Cons.IH not_shouldEscape(3,4,5) [OF False] by simp
  next
    case True
    then show ?thesis
      using Cons.IH hex_digit(3) [OF hi] hex_digit(3) [OF lo] by auto
  qed
qed

lemma escaping_sound_go_env: "escaping_sound go_env"
proof -
  have "QueryUnescape shareSnapshot = Some shareSnapshot" by code_simp
  moreover have "CHR ''&'' \<notin> set (QueryEscape s) \<and> CHR ''='' \<notin> set (QueryEscape s) \<and>
      CHR '';'' \<notin> set (QueryEscape s)" for s
    using QueryEscape_separators [of s] by auto
  ultimately show ?thesis
    by (simp add: escaping_sound_def go_env_def QueryUnescape_QueryEscape)
qed

text \<open>
  The sub-parser of \<open>go_env\<close> takes the entries of its keys out of the map and encodes
  them as \<^verbatim>\<open>Values.Encode\<close> does: for every map with distinct keys the encoding reads as
  the associations taken.
\<close>

lemma associations_filter:
  "associations m = associations (filter P m) + associations (filter (\<lambda>kv. \<not> P kv) m)"
  by (induction m) (simp_all add: associations_Nil associations_Cons)

lemma go_env_authorization_kept:
  assumes "distinct (map fst m)"
  shows "authorization_kept go_env m
     (map (\<lambda>kv. (QueryEscape (fst kv), QueryEscape (snd kv)))
        (Encode_pairs (filter (\<lambda>kv. example_isSASKey (fst kv)) m)
           (sort (map fst (filter (\<lambda>kv. example_isSASKey (fst kv)) m)))))
     (Encode_pairs (filter (\<lambda>kv. example_isSASKey (fst kv)) m)
        (sort (map fst (filter (\<lambda>kv. example_isSASKey (fst kv)) m))))"
proof -
  let ?sas = "filter (\<lambda>kv. example_isSASKey (fst kv)) m"
  let ?rest = "filter (\<lambda>kv. \<not> example_isSASKey (fst kv)) m"
  let ?kvs = "Encode_pairs ?sas (sort (map fst ?sas))"
  have d: "distinct (map fst ?sas)" "distinct (map fst ?rest)"
    using assms by (simp_all add: distinct_map_filter)
  have parse: "newSASQueryParameters go_env m True = (?sas, ?rest)"
    by (simp add: go_env_def spec_newSASQueryParameters_def)
  have enc: "SAS_Encode go_env ?sas =
      spec_join (map raw_piece (map (\<lambda>kv. (QueryEscape (fst kv), QueryEscape (snd kv))) ?kvs))"
    by (simp add: go_env_def Values_Encode_join comp_def)
  have ok: "list_all2 (raw_ok (url_QueryUnescape go_env))
      (map (\<lambda>kv. (QueryEscape (fst kv), QueryEscape (snd kv))) ?kvs) ?kvs"
    using raw_ok_escaped [OF escaping_sound_go_env]
    by (simp add: list_all2_conv_all_nth go_env_def)
  have "associations m = associations ?sas + associations ?rest"
    by (rule associations_filter)
  then have assoc: "associations m = associations ?rest + mset ?kvs"
    by (simp add: mset_Encode_pairs_sorted [OF d(1)])
  show ?thesis
    unfolding authorization_kept_def parse fst_conv snd_conv
    using d(2) enc ok assoc by blast
qed

subsection \<open>Examples of the round trip\<close>

lemma example_roundtrip_built:
  "parse_then_build go_env [] example_roundtrip =
     Inr \<lparr>url_Scheme = ''https'', url_Host = ''10.0.0.1:443'',
          url_Path = ''/myaccount/myshare/dir/file.txt'',
          url_RawQuery =
            ''Foo=b+az&foo=bar&foo=qux&sharesnapshot=2020-01-01T00:00:00Z&sig=a%2Bb&sv=2017-07-29''\<rparr>"
  by code_simp

theorem parse_then_build_equivalent_witness:
  "escaping_sound go_env \<and>
   url_Path example_roundtrip \<in> set (canonical_paths (isIPEndpointStyle go_env example_roundtrip)
      ''myaccount'' ''myshare'' ''dir/file.txt'') \<and>
   snapshot_plain go_env (url_Query go_env example_roundtrip) \<and>
   authorization_kept go_env (map_delete (url_Query go_env example_roundtrip) shareSnapshot)
     [(''sig'', ''a%2Bb''), (''sv'', ''2017-07-29'')] [(''sig'', ''a+b''), (''sv'', ''2017-07-29'')] \<and>
   (\<exists>out. parse_then_build go_env [] example_roundtrip = Inr out \<and>
      observably_equivalent go_env example_roundtrip out \<and>
      associations (url_Query go_env out) = associations (url_Query go_env example_roundtrip))"
proof -
  let ?m = "[(''foo'', [''bar'', ''qux'']), (''sig'', [''a+b'']), (''Foo'', [''b az'']),
      (''sv'', [''2017-07-29''])]"
  have style: "isIPEndpointStyle go_env example_roundtrip" by code_simp
  have path: "url_Path example_roundtrip \<in> set (canonical_paths
      (isIPEndpointStyle go_env example_roundtrip) ''myaccount'' ''myshare'' ''dir/file.txt'')"
    by (simp add: style canonical_paths_def) (simp add: example_roundtrip_def)
  have segs: "''myaccount'' \<noteq> []" "''myshare'' \<noteq> []" "''dir/file.txt'' \<noteq> []"
    "CHR ''/'' \<notin> set ''myaccount''" "CHR ''/'' \<notin> set ''myshare''"
    by simp_all
  have snap: "snapshot_plain go_env (url_Query go_env example_roundtrip)" by code_simp
  have m: "map_delete (url_Query go_env example_roundtrip) shareSnapshot = ?m" by code_simp
  have keys: "distinct (map fst ?m)" by simp
  have raws: "map (\<lambda>kv. (QueryEscape (fst kv), QueryEscape (snd kv)))
        [(''sig'', ''a+b''), (''sv'', ''2017-07-29'')] =
      [(''sig'', ''a%2Bb''), (''sv'', ''2017-07-29'')]"
    by code_simp
  have kvs: "Encode_pairs (filter (\<lambda>kv. example_isSASKey (fst kv)) ?m)
        (sort (map fst (filter (\<lambda>kv. example_isSASKey (fst kv)) ?m))) =
      [(''sig'', ''a+b''), (''sv'', ''2017-07-29'')]"
    by code_simp
  have auth: "authorization_kept go_env
      (map_delete (url_Query go_env example_roundtrip) shareSnapshot)
      [(''sig'', ''a%2Bb''), (''sv'', ''2017-07-29'')] [(''sig'', ''a+b''), (''sv'', ''2017-07-29'')]"
    using go_env_authorization_kept [OF keys] unfolding kvs raws m .
  from parse_then_build_equivalent [OF escaping_sound_go_env path segs snap auth, of "[]"]
  show ?thesis using escaping_sound_go_env path snap auth by blast
qed

text \<open>
  C1, as the spec states it, fails: \<^verbatim>\<open>NewFileURLParts\<close> takes the first value of the
  snapshot key (line 90) and deletes the key, so the second value is not in the URL
  that is built; the query has one association where the input has two.
\<close>

theorem parse_then_build_counterexample:
  "parse_then_build go_env [] example_two_snapshots = Inr example_two_snapshots_built \<and>
   \<not> observably_equivalent go_env example_two_snapshots example_two_snapshots_built"
proof -
  have built: "parse_then_build go_env [] example_two_snapshots = Inr example_two_snapshots_built"
    by code_simp
  have q1: "url_Query go_env example_two_snapshots =
      [(''sharesnapshot'', [''2020-01-01T00:00:00Z'', ''2021-01-01T00:00:00Z''])]"
    by code_simp
  have q2: "url_Query go_env example_two_snapshots_built =
      [(''sharesnapshot'', [''2020-01-01T00:00:00Z''])]"
    by code_simp
  have sizes: "size (associations (url_Query go_env example_two_snapshots)) = 2"
    "size (associations (url_Query go_env example_two_snapshots_built)) = 1"
    by (simp_all add: q1 q2 associations_def)
  have "image_mset (\<lambda>kv. (strings_ToLower (fst kv), snd kv))
        (associations (url_Query go_env example_two_snapshots)) \<noteq>
      image_mset (\<lambda>kv. (strings_ToLower (fst kv), snd kv))
        (associations (url_Query go_env example_two_snapshots_built))"
  proof
    assume "image_mset (\<lambda>kv. (strings_ToLower (fst kv), snd kv))
        (associations (url_Query go_env example_two_snapshots)) =
      image_mset (\<lambda>kv. (strings_ToLower (fst kv), snd kv))
        (associations (url_Query go_env example_two_snapshots_built))"
    then have "size (image_mset (\<lambda>kv. (strings_ToLower (fst kv), snd kv))
          (associations (url_Query go_env example_two_snapshots))) =
        size (image_mset (\<lambda>kv. (strings_ToLower (fst kv), snd kv))
          (associations (url_Query go_env example_two_snapshots_built)))"
      by (rule arg_cong)
    then show False by (simp only: size_image_mset sizes)
  qed
  with built show ?thesis by (simp add: observably_equivalent_def)
qed

end
